theory Spec2Isabelle
  imports Complex_Main "HOL-Library.Word" "HOL-Library.Multiset"
begin

section \<open>Machine integers\<close>

text \<open>
  The C++ type \<^verbatim>\<open>int\<close> is a 32-bit two's complement integer: \<open>+\<close> and \<open>-\<close> wrap,
  \<open>sint\<close> reads the signed value, and the comparisons of the source compare signed values.
\<close>

type_synonym int32 = "32 word"

text \<open>\<^verbatim>\<open>std::max(a, b)\<close> returns \<^verbatim>\<open>(a < b) ? b : a\<close>.\<close>

definition std_max :: "int32 \<Rightarrow> int32 \<Rightarrow> int32" where
  "std_max a b = (if sint a < sint b then b else a)"

section \<open>Enumerations\<close>

text \<open>\<^verbatim>\<open>Dish::CuisineType\<close>, the values \<^verbatim>\<open>Kitchen::stringToCuisineType\<close> returns.\<close>

datatype CuisineType = ITALIAN | MEXICAN | CHINESE | INDIAN | AMERICAN | FRENCH | OTHER

text \<open>\<^verbatim>\<open>Appetizer::ServingStyle\<close> (Appetizer.hpp).\<close>

datatype ServingStyle = PLATED | FAMILY_STYLE | BUFFET

text \<open>\<^verbatim>\<open>MainCourse::CookingMethod\<close> and \<^verbatim>\<open>MainCourse::Category\<close>, as MainCourse.cpp uses them.\<close>

datatype CookingMethod = GRILLED | BAKED | BOILED | FRIED | STEAMED | RAW

datatype Category = GRAIN | PASTA | LEGUME | BREAD | SALAD | SOUP | STARCHES | VEGETABLE

text \<open>\<^verbatim>\<open>Dessert::FlavorProfile\<close> (Dessert.hpp).\<close>

datatype FlavorProfile = SWEET | BITTER | SOUR | SALTY | UMAMI

section \<open>String to enumeration conversions (Kitchen.cpp)\<close>

definition stringToServingStyle :: "string \<Rightarrow> ServingStyle" where
  "stringToServingStyle str =
     (if str = ''PLATED'' then PLATED
      else if str = ''BUFFET'' then BUFFET
      else if str = ''FAMILY_STYLE'' then FAMILY_STYLE
      else PLATED)"

definition stringToCookingMethod :: "string \<Rightarrow> CookingMethod" where
  "stringToCookingMethod str =
     (if str = ''GRILLED'' then GRILLED
      else if str = ''BAKED'' then BAKED
      else if str = ''BOILED'' then BOILED
      else if str = ''FRIED'' then FRIED
      else if str = ''STEAMED'' then STEAMED
      else if str = ''RAW'' then RAW
      else GRILLED)"

definition stringToFlavorProfile :: "string \<Rightarrow> FlavorProfile" where
  "stringToFlavorProfile str =
     (if str = ''SWEET'' then SWEET
      else if str = ''BITTER'' then BITTER
      else if str = ''SOUR'' then SOUR
      else if str = ''SALTY'' then SALTY
      else if str = ''UMAMI'' then UMAMI
      else SWEET)"

definition stringToCuisineType :: "string \<Rightarrow> CuisineType" where
  "stringToCuisineType str =
     (if str = ''ITALIAN'' then ITALIAN
      else if str = ''MEXICAN'' then MEXICAN
      else if str = ''CHINESE'' then CHINESE
      else if str = ''INDIAN'' then INDIAN
      else if str = ''AMERICAN'' then AMERICAN
      else if str = ''FRENCH'' then FRENCH
      else OTHER)"

section \<open>Dishes\<close>

text \<open>
  Modelled from the spec: the base class \<^verbatim>\<open>Dish\<close> and \<^verbatim>\<open>Dish::DietaryRequest\<close>
  (Dish.hpp and Dish.cpp are not among the sources). ``name (text), ingredients (ordered
  sequence of text, duplicates allowed, order meaningful for replacement logic), prep_time
  (non-negative integer, minutes), price (non-negative decimal), cuisine_type (enum)'';
  the getters that the subclasses and the kitchen call read a field, and
  \<^verbatim>\<open>setIngredients\<close> replaces the ingredient sequence (``Replace the dish's ingredient
  sequence with the newly built one''). The constructors of the subclasses pass
  \<^verbatim>\<open>prep_time\<close> as an \<^verbatim>\<open>int\<close> and \<^verbatim>\<open>price\<close> as a \<^verbatim>\<open>double\<close>; none of the
  functions below computes with the price, and it is kept as a rational number.

  The three subclasses are records that extend the base record. A field carries the name
  of the private member, with a prime where the member has a trailing underscore
  (\<^verbatim>\<open>prep_time_\<close> is \<open>prep_time'\<close>).
\<close>

record Dish =
  name' :: string
  ingredients' :: "string list"
  prep_time' :: int32
  price' :: rat
  cuisine_type' :: CuisineType

record Appetizer = Dish +
  serving_style' :: ServingStyle
  spiciness_level' :: int32
  vegetarian' :: bool

record SideDish =
  name :: string
  category :: Category

record MainCourse = Dish +
  cooking_method' :: CookingMethod
  protein_type' :: string
  side_dishes' :: "SideDish list"
  gluten_free' :: bool

record Dessert = Dish +
  flavor_profile' :: FlavorProfile
  sweetness_level' :: int32
  contains_nuts' :: bool

text \<open>
  \<^verbatim>\<open>Dish::DietaryRequest\<close>: ``a configuration bundle of independent boolean flags'',
  with the names the subclasses read.
\<close>

record DietaryRequest =
  vegetarian :: bool
  vegan :: bool
  gluten_free :: bool
  nut_free :: bool
  low_sodium :: bool
  low_sugar :: bool

section \<open>Dietary accommodations\<close>

definition non_vegetarian :: "string list" where
  "non_vegetarian =
     [''Meat'', ''Chicken'', ''Fish'', ''Beef'', ''Pork'', ''Lamb'', ''Shrimp'', ''Bacon'']"

definition gluten_containing :: "string list" where
  "gluten_containing =
     [''Wheat'', ''Flour'', ''Bread'', ''Pasta'', ''Barley'', ''Rye'', ''Oats'', ''Crust'']"

definition dairy_and_eggs :: "string list" where
  "dairy_and_eggs = [''Milk'', ''Eggs'', ''Cheese'', ''Butter'', ''Cream'', ''Yogurt'']"

definition nuts :: "string list" where
  "nuts =
     [''Almonds'', ''Walnuts'', ''Pecans'', ''Hazelnuts'', ''Peanuts'', ''Cashews'',
      ''Pistachios'']"

text \<open>
  The inner loop \<^verbatim>\<open>for (const auto& x : table) if (ingredient == x) { ...; break; }\<close>
  of every pass: does the ingredient occur in the table?
\<close>

fun is_listed :: "string \<Rightarrow> string list \<Rightarrow> bool" where
  "is_listed ingredient [] = False"
| "is_listed ingredient (x # table) =
     (if ingredient = x then True else is_listed ingredient table)"

text \<open>
  The replacing pass (the vegetarian pass of \<^verbatim>\<open>Appetizer\<close> and \<^verbatim>\<open>MainCourse\<close>, the
  vegan pass of \<^verbatim>\<open>Dessert\<close>; the three loops differ in the table and the two
  replacement strings only). The state of the loop is \<^verbatim>\<open>new_ingredients\<close> and the two
  flags \<^verbatim>\<open>used_beans\<close>/\<^verbatim>\<open>used_first_replacement\<close> and
  \<^verbatim>\<open>used_mushrooms\<close>/\<^verbatim>\<open>used_second_replacement\<close>.
\<close>

fun replace_loop ::
  "string list \<Rightarrow> string \<Rightarrow> string \<Rightarrow> string list \<Rightarrow> string list \<times> bool \<times> bool \<Rightarrow>
   string list \<times> bool \<times> bool" where
  "replace_loop table first second [] st = st"
| "replace_loop table first second (ingredient # rest) (new_ingredients, used_first, used_second) =
     (if is_listed ingredient table then
        (if \<not> used_first then
           replace_loop table first second rest (new_ingredients @ [first], True, used_second)
         else if \<not> used_second then
           replace_loop table first second rest (new_ingredients @ [second], used_first, True)
         else replace_loop table first second rest (new_ingredients, used_first, used_second))
      else
        replace_loop table first second rest
          (new_ingredients @ [ingredient], used_first, used_second))"

text \<open>
  The removing pass (gluten-free for \<^verbatim>\<open>Appetizer\<close>, vegan for \<^verbatim>\<open>MainCourse\<close>,
  nut-free for \<^verbatim>\<open>Dessert\<close>): an ingredient of the table is not pushed.
\<close>

fun remove_loop :: "string list \<Rightarrow> string list \<Rightarrow> string list \<Rightarrow> string list" where
  "remove_loop table [] new_ingredients = new_ingredients"
| "remove_loop table (ingredient # rest) new_ingredients =
     (if is_listed ingredient table then remove_loop table rest new_ingredients
      else remove_loop table rest (new_ingredients @ [ingredient]))"

text \<open>\<^verbatim>\<open>Appetizer::dietaryAccommodations\<close> (Appetizer.cpp, lines 139 to 191).\<close>

definition Appetizer_dietaryAccommodations :: "DietaryRequest \<Rightarrow> Appetizer \<Rightarrow> Appetizer" where
  "Appetizer_dietaryAccommodations request a =
     (let a1 = (if vegetarian request then
                  a\<lparr>vegetarian' := True,
                    ingredients' :=
                      fst (replace_loop non_vegetarian ''Beans'' ''Mushrooms'' (ingredients' a)
                             ([], False, False))\<rparr>
                else a);
          a2 = (if low_sodium request then
                  a1\<lparr>spiciness_level' := std_max 0 (spiciness_level' a1 - 2)\<rparr>
                else a1)
      in (if gluten_free request then
            a2\<lparr>ingredients' := remove_loop gluten_containing (ingredients' a2) []\<rparr>
          else a2))"

text \<open>
  The side dish loop of the gluten-free pass of \<^verbatim>\<open>MainCourse\<close>: a side dish is kept
  when its category is none of GRAIN, PASTA, BREAD, STARCHES.
\<close>

fun side_dish_loop :: "SideDish list \<Rightarrow> SideDish list \<Rightarrow> SideDish list" where
  "side_dish_loop [] new_side_dishes = new_side_dishes"
| "side_dish_loop (side # rest) new_side_dishes =
     (if category side \<noteq> GRAIN \<and> category side \<noteq> PASTA \<and> category side \<noteq> BREAD \<and>
         category side \<noteq> STARCHES
      then side_dish_loop rest (new_side_dishes @ [side])
      else side_dish_loop rest new_side_dishes)"

text \<open>\<^verbatim>\<open>MainCourse::dietaryAccommodations\<close> (MainCourse.cpp, lines 191 to 254).\<close>

definition MainCourse_dietaryAccommodations :: "DietaryRequest \<Rightarrow> MainCourse \<Rightarrow> MainCourse" where
  "MainCourse_dietaryAccommodations request m =
     (let m1 = (if vegetarian request then
                  m\<lparr>protein_type' := ''Tofu'',
                    ingredients' :=
                      fst (replace_loop non_vegetarian ''Beans'' ''Mushrooms'' (ingredients' m)
                             ([], False, False))\<rparr>
                else m);
          m2 = (if vegan request then
                  m1\<lparr>protein_type' := ''Tofu'',
                     ingredients' := remove_loop dairy_and_eggs (ingredients' m1) []\<rparr>
                else m1)
      in (if gluten_free request then
            m2\<lparr>gluten_free' := True, side_dishes' := side_dish_loop (side_dishes' m2) []\<rparr>
          else m2))"

text \<open>
  \<^verbatim>\<open>Dessert::dietaryAccommodations\<close> (Dessert.cpp, lines 145 to 209). The locals are
  \<^verbatim>\<open>new_ingredients\<close>, \<^verbatim>\<open>need_update\<close> and \<^verbatim>\<open>current_ingredients\<close>. The vegan pass
  first clears \<^verbatim>\<open>new_ingredients\<close> and then iterates over
  \<^verbatim>\<open>need_update ? new_ingredients : current_ingredients\<close>, an lvalue: when the nut-free
  pass has run, that is the vector that was just cleared.
\<close>

definition Dessert_dietaryAccommodations :: "DietaryRequest \<Rightarrow> Dessert \<Rightarrow> Dessert" where
  "Dessert_dietaryAccommodations request d =
     (let current_ingredients = ingredients' d;
          (d1, new_ingredients1, need_update1) =
             (if nut_free request then
                (d\<lparr>contains_nuts' := False\<rparr>, remove_loop nuts current_ingredients [], True)
              else (d, [], False));
          d2 = (if low_sugar request then
                  d1\<lparr>sweetness_level' := std_max 0 (sweetness_level' d1 - 3)\<rparr>
                else d1);
          (new_ingredients2, need_update2) =
             (if vegan request then
                (let cleared = [];
                     range = (if need_update1 then cleared else current_ingredients)
                 in (fst (replace_loop dairy_and_eggs ''Almond Milk'' ''Flax Egg'' range
                            (cleared, False, False)),
                     True))
              else (new_ingredients1, need_update1))
      in (if need_update2 then d2\<lparr>ingredients' := new_ingredients2\<rparr> else d2))"

section \<open>Dish objects\<close>

text \<open>
  A \<^verbatim>\<open>Dish*\<close> designates an object of one of the three subclasses. The getters of the
  base class read the base fields; \<^verbatim>\<open>dietaryAccommodations\<close> is virtual and dispatches
  on the subclass.
\<close>

datatype DishObj = AppetizerObj Appetizer | MainCourseObj MainCourse | DessertObj Dessert

fun getName :: "DishObj \<Rightarrow> string" where
  "getName (AppetizerObj a) = name' a"
| "getName (MainCourseObj m) = name' m"
| "getName (DessertObj d) = name' d"

fun getIngredients :: "DishObj \<Rightarrow> string list" where
  "getIngredients (AppetizerObj a) = ingredients' a"
| "getIngredients (MainCourseObj m) = ingredients' m"
| "getIngredients (DessertObj d) = ingredients' d"

fun getPrepTime :: "DishObj \<Rightarrow> int32" where
  "getPrepTime (AppetizerObj a) = prep_time' a"
| "getPrepTime (MainCourseObj m) = prep_time' m"
| "getPrepTime (DessertObj d) = prep_time' d"

fun getPrice :: "DishObj \<Rightarrow> rat" where
  "getPrice (AppetizerObj a) = price' a"
| "getPrice (MainCourseObj m) = price' m"
| "getPrice (DessertObj d) = price' d"

fun cuisine_type_of :: "DishObj \<Rightarrow> CuisineType" where
  "cuisine_type_of (AppetizerObj a) = cuisine_type' a"
| "cuisine_type_of (MainCourseObj m) = cuisine_type' m"
| "cuisine_type_of (DessertObj d) = cuisine_type' d"

text \<open>
  The fields of the subclasses that no accommodation writes: the serving style of an
  appetizer, the cooking method of a main course and the flavor profile of a dessert. A
  dish of another subclass has none.
\<close>

fun serving_style_of :: "DishObj \<Rightarrow> ServingStyle option" where
  "serving_style_of (AppetizerObj a) = Some (serving_style' a)"
| "serving_style_of (MainCourseObj m) = None"
| "serving_style_of (DessertObj d) = None"

fun cooking_method_of :: "DishObj \<Rightarrow> CookingMethod option" where
  "cooking_method_of (AppetizerObj a) = None"
| "cooking_method_of (MainCourseObj m) = Some (cooking_method' m)"
| "cooking_method_of (DessertObj d) = None"

fun flavor_profile_of :: "DishObj \<Rightarrow> FlavorProfile option" where
  "flavor_profile_of (AppetizerObj a) = None"
| "flavor_profile_of (MainCourseObj m) = None"
| "flavor_profile_of (DessertObj d) = Some (flavor_profile' d)"

fun dietaryAccommodations :: "DietaryRequest \<Rightarrow> DishObj \<Rightarrow> DishObj" where
  "dietaryAccommodations request (AppetizerObj a) =
     AppetizerObj (Appetizer_dietaryAccommodations request a)"
| "dietaryAccommodations request (MainCourseObj m) =
     MainCourseObj (MainCourse_dietaryAccommodations request m)"
| "dietaryAccommodations request (DessertObj d) =
     DessertObj (Dessert_dietaryAccommodations request d)"

text \<open>
  Modelled from the spec: \<^verbatim>\<open>Dish::operator==\<close> (Dish.cpp is not among the sources).
  ``Equality between two Dish values is defined as equality of all shared attributes
  (name, ingredients sequence, prep_time, price, cuisine_type) plus variant-specific
  attributes when types match; cross-variant comparisons are unequal.''
\<close>

definition Dish_equal :: "DishObj \<Rightarrow> DishObj \<Rightarrow> bool" where
  "Dish_equal a b = (a = b)"

text \<open>The test of \<^verbatim>\<open>newOrder\<close> and \<^verbatim>\<open>serveDish\<close> for an elaborate dish.\<close>

definition elaborate :: "DishObj \<Rightarrow> bool" where
  "elaborate d = (5 \<le> length (getIngredients d) \<and> 60 \<le> sint (getPrepTime d))"

section \<open>The kitchen\<close>

text \<open>
  \<^verbatim>\<open>Kitchen\<close> is an \<^verbatim>\<open>ArrayBag<Dish*>\<close>: the array \<^verbatim>\<open>items_\<close> holds pointers, and the
  dishes live in the free store. A pointer is an address; \<open>heap\<close> maps an address to the
  object that is live there. \<^verbatim>\<open>delete\<close> ends the life of an object and leaves every
  copy of the pointer dangling. The array has as many slots as the capacity of the bag;
  the slots from \<^verbatim>\<open>item_count_\<close> on keep whatever was stored in them last. The size
  is between 0 and the capacity and is kept as a natural number.
\<close>

record Kitchen =
  heap :: "nat \<Rightarrow> DishObj option"
  items' :: "nat list"
  item_count' :: nat
  total_prep_time' :: int32
  count_elaborate' :: int32

text \<open>
  Dereferencing a pointer whose object is not live is undefined behaviour; the model
  stops there with a fault.
\<close>

datatype fault = UseAfterFree

text \<open>
  \<^verbatim>\<open>Kitchen::Kitchen()\<close>: an empty bag and both counters zero. The parameter is the
  content of the uninitialised array, one entry per slot.
\<close>

definition Kitchen_new :: "nat list \<Rightarrow> Kitchen" where
  "Kitchen_new slots =
     \<lparr>heap = (\<lambda>p. None), items' = slots, item_count' = 0, total_prep_time' = 0,
      count_elaborate' = 0\<rparr>"

text \<open>
  Modelled from the spec: the queries of \<^verbatim>\<open>ArrayBag\<close> (ArrayBag.hpp is not among the
  sources). ``isEmpty(), isFull(), getCurrentSize(), getCapacity(): pure queries.''
\<close>

definition getCapacity :: "Kitchen \<Rightarrow> nat" where
  "getCapacity k = length (items' k)"

definition getCurrentSize :: "Kitchen \<Rightarrow> nat" where
  "getCurrentSize k = item_count' k"

text \<open>
  Modelled from the spec: \<^verbatim>\<open>ArrayBag::add\<close> (ArrayBag.hpp is not among the sources).
  ``fails (returns false, no mutation) if current_size == capacity; otherwise appends
  item at index current_size and increments current_size.'' The size of a bag never
  exceeds its capacity, so the index is within the array.
\<close>

definition ArrayBag_add :: "nat \<Rightarrow> Kitchen \<Rightarrow> bool \<times> Kitchen" where
  "ArrayBag_add item k =
     (if getCurrentSize k = getCapacity k then (False, k)
      else (True, k\<lparr>items' := (items' k)[item_count' k := item],
                     item_count' := item_count' k + 1\<rparr>))"

text \<open>
  Modelled from the spec: \<^verbatim>\<open>ArrayBag::remove\<close> (ArrayBag.hpp is not among the sources).
  ``locates the first element equal to item by scanning index 0..current_size; if found
  at index i, overwrites index i with the element currently at index (current_size - 1),
  decrements current_size, and returns true. If current_size == 0 or no match found,
  returns false and the container is unchanged.'' The elements are pointers, and their
  equality is that of addresses.
\<close>

fun index_from :: "nat \<Rightarrow> nat list \<Rightarrow> nat \<Rightarrow> nat option" where
  "index_from item [] i = None"
| "index_from item (x # xs) i = (if x = item then Some i else index_from item xs (Suc i))"

definition ArrayBag_remove :: "nat \<Rightarrow> Kitchen \<Rightarrow> bool \<times> Kitchen" where
  "ArrayBag_remove item k =
     (if getCurrentSize k = 0 then (False, k)
      else (case index_from item (take (item_count' k) (items' k)) 0 of
              None \<Rightarrow> (False, k)
            | Some i \<Rightarrow>
                (True, k\<lparr>items' := (items' k)[i := items' k ! (item_count' k - 1)],
                         item_count' := item_count' k - 1\<rparr>)))"

text \<open>\<^verbatim>\<open>Kitchen::newOrder\<close> (Kitchen.cpp, lines 165 to 174).\<close>

definition newOrder :: "nat \<Rightarrow> Kitchen \<Rightarrow> fault + bool \<times> Kitchen" where
  "newOrder new_dish k =
     (let (added, k1) = ArrayBag_add new_dish k in
      if added then
        (case heap k1 new_dish of
           None \<Rightarrow> Inl UseAfterFree
         | Some d \<Rightarrow>
             Inr (True,
                  k1\<lparr>total_prep_time' := total_prep_time' k1 + getPrepTime d,
                     count_elaborate' :=
                       (if 5 \<le> length (getIngredients d) \<and> 60 \<le> sint (getPrepTime d)
                        then count_elaborate' k1 + 1 else count_elaborate' k1)\<rparr>))
      else Inr (False, k))"

text \<open>
  \<^verbatim>\<open>Kitchen::serveDish\<close> (Kitchen.cpp, lines 189 to 204). The parameter is the object
  that \<^verbatim>\<open>dish_to_remove\<close> designates. The scan returns the first index whose dish is
  equal to it, with that dish.
\<close>

fun serveDish_scan ::
  "(nat \<Rightarrow> DishObj option) \<Rightarrow> DishObj \<Rightarrow> nat list \<Rightarrow> nat \<Rightarrow> fault + (nat \<times> DishObj) option" where
  "serveDish_scan h dish_to_remove [] i = Inr None"
| "serveDish_scan h dish_to_remove (p # ps) i =
     (case h p of
        None \<Rightarrow> Inl UseAfterFree
      | Some x \<Rightarrow>
          if Dish_equal x dish_to_remove then Inr (Some (i, x))
          else serveDish_scan h dish_to_remove ps (Suc i))"

definition serveDish :: "DishObj \<Rightarrow> Kitchen \<Rightarrow> fault + bool \<times> Kitchen" where
  "serveDish dish_to_remove k =
     (if getCurrentSize k = 0 then Inr (False, k)
      else
        (case serveDish_scan (heap k) dish_to_remove (take (item_count' k) (items' k)) 0 of
           Inl e \<Rightarrow> Inl e
         | Inr None \<Rightarrow> Inr (False, k)
         | Inr (Some (i, x)) \<Rightarrow>
             (let k1 = k\<lparr>total_prep_time' := total_prep_time' k - getPrepTime x\<rparr>;
                  k2 = (if 5 \<le> length (getIngredients x) \<and> 60 \<le> sint (getPrepTime x)
                        then k1\<lparr>count_elaborate' := count_elaborate' k1 - 1\<rparr> else k1);
                  k3 = k2\<lparr>heap := (heap k2)(items' k2 ! i := None)\<rparr>
              in Inr (True, snd (ArrayBag_remove (items' k3 ! i) k3)))))"

text \<open>\<^verbatim>\<open>Kitchen::dietaryAdjustment\<close> (Kitchen.cpp, lines 214 to 218).\<close>

fun dietaryAdjustment_loop ::
  "DietaryRequest \<Rightarrow> nat list \<Rightarrow> (nat \<Rightarrow> DishObj option) \<Rightarrow> fault + (nat \<Rightarrow> DishObj option)" where
  "dietaryAdjustment_loop request [] h = Inr h"
| "dietaryAdjustment_loop request (p # ps) h =
     (case h p of
        None \<Rightarrow> Inl UseAfterFree
      | Some x \<Rightarrow> dietaryAdjustment_loop request ps (h(p \<mapsto> dietaryAccommodations request x)))"

definition dietaryAdjustment :: "DietaryRequest \<Rightarrow> Kitchen \<Rightarrow> fault + Kitchen" where
  "dietaryAdjustment request k =
     (case dietaryAdjustment_loop request (take (item_count' k) (items' k)) (heap k) of
        Inl e \<Rightarrow> Inl e
      | Inr h \<Rightarrow> Inr (k\<lparr>heap := h\<rparr>))"

text \<open>
  \<^verbatim>\<open>Kitchen::calculateAvgPrepTime\<close> (Kitchen.cpp, lines 300 to 310). The local
  \<^verbatim>\<open>double total_prep_time_\<close> sums the preparation times and is divided by the size.
  The sum of at most capacity many 32-bit integers is exact in a \<^verbatim>\<open>double\<close>, and the
  rounded quotient lies on the same side of every half-integer as the exact one (their
  distance, at least \<open>1 / (2 * size)\<close>, is far above the spacing of the doubles of that
  magnitude), so the sum and the quotient are rational numbers here. \<^verbatim>\<open>round\<close> rounds
  to the nearest integer, halfway cases away from zero.
\<close>

definition c_round :: "rat \<Rightarrow> int" where
  "c_round x = (if 0 \<le> x then \<lfloor>x + 1 / 2\<rfloor> else - \<lfloor>- x + 1 / 2\<rfloor>)"

fun avg_loop :: "(nat \<Rightarrow> DishObj option) \<Rightarrow> nat list \<Rightarrow> rat \<Rightarrow> fault + rat" where
  "avg_loop h [] total_prep_time = Inr total_prep_time"
| "avg_loop h (p # ps) total_prep_time =
     (case h p of
        None \<Rightarrow> Inl UseAfterFree
      | Some x \<Rightarrow> avg_loop h ps (total_prep_time + of_int (sint (getPrepTime x))))"

definition calculateAvgPrepTime :: "Kitchen \<Rightarrow> fault + int" where
  "calculateAvgPrepTime k =
     (if getCurrentSize k = 0 then Inr 0
      else
        (case avg_loop (heap k) (take (item_count' k) (items' k)) 0 of
           Inl e \<Rightarrow> Inl e
         | Inr total_prep_time \<Rightarrow>
             Inr (c_round (total_prep_time / of_nat (getCurrentSize k)))))"

text \<open>
  \<^verbatim>\<open>Kitchen::releaseDishesBelowPrepTime\<close> (Kitchen.cpp, lines 382 to 392). The bound
  \<^verbatim>\<open>num\<close> is the size before the loop; the loop reads \<^verbatim>\<open>items_[i]\<close> for every
  \<open>i\<close> below it (a slot of the array), whatever the size has become, and hands the
  pointer to \<^verbatim>\<open>serveDish\<close>. \<open>cnt\<close> is the local \<^verbatim>\<open>count\<close>; it is incremented
  whatever \<^verbatim>\<open>serveDish\<close> returns.
\<close>

fun releaseDishesBelowPrepTime_loop ::
  "int32 \<Rightarrow> nat list \<Rightarrow> int32 \<times> Kitchen \<Rightarrow> fault + int32 \<times> Kitchen" where
  "releaseDishesBelowPrepTime_loop prep_time [] (cnt, k) = Inr (cnt, k)"
| "releaseDishesBelowPrepTime_loop prep_time (i # rest) (cnt, k) =
     (case heap k (items' k ! i) of
        None \<Rightarrow> Inl UseAfterFree
      | Some x \<Rightarrow>
          if sint (getPrepTime x) < sint prep_time then
            (case serveDish x k of
               Inl e \<Rightarrow> Inl e
             | Inr (served, k') \<Rightarrow> releaseDishesBelowPrepTime_loop prep_time rest (cnt + 1, k'))
          else releaseDishesBelowPrepTime_loop prep_time rest (cnt, k))"

definition releaseDishesBelowPrepTime :: "int32 \<Rightarrow> Kitchen \<Rightarrow> fault + int32 \<times> Kitchen" where
  "releaseDishesBelowPrepTime prep_time k =
     releaseDishesBelowPrepTime_loop prep_time [0..<getCurrentSize k] (0, k)"

section \<open>Valid kitchens\<close>

text \<open>
  The dishes a kitchen contains are the objects its first \<^verbatim>\<open>item_count_\<close> slots point
  to. In a valid kitchen the size is within the capacity, and these slots hold distinct
  pointers to live objects: the kitchen owns each of its dishes once.
\<close>

definition contained :: "Kitchen \<Rightarrow> DishObj list" where
  "contained k = map (\<lambda>p. the (heap k p)) (take (item_count' k) (items' k))"

definition valid :: "Kitchen \<Rightarrow> bool" where
  "valid k =
     (item_count' k \<le> length (items' k) \<and>
      distinct (take (item_count' k) (items' k)) \<and>
      set (take (item_count' k) (items' k)) \<subseteq> dom (heap k))"

text \<open>
  The kitchens that the constructor, \<^verbatim>\<open>newOrder\<close> and \<^verbatim>\<open>serveDish\<close> produce. The
  caller of \<^verbatim>\<open>newOrder\<close> hands over a dish it has just allocated (as the constructor
  from a file does with \<^verbatim>\<open>new Appetizer(...)\<close>): the pointer is fresh.
\<close>

inductive reachable :: "Kitchen \<Rightarrow> bool" where
  start: "reachable (Kitchen_new slots)"
| order: "reachable k \<Longrightarrow> heap k p = None \<Longrightarrow>
          newOrder p (k\<lparr>heap := (heap k)(p \<mapsto> d)\<rparr>) = Inr (b, k') \<Longrightarrow> reachable k'"
| serve: "reachable k \<Longrightarrow> serveDish d k = Inr (b, k') \<Longrightarrow> reachable k'"

section \<open>The specification's notions\<close>

text \<open>
  The bounded substitution in the words of the specification: walking the ingredients in
  their order, an ingredient outside the table is copied; an ingredient of the table
  becomes the first replacement when no ingredient of the table stands before it, the
  second replacement when exactly one does, and is dropped otherwise.
  \<open>emitted table first second k x\<close> is what the ingredient \<open>x\<close> contributes when
  \<open>k\<close> ingredients of the table stand before it.
\<close>

definition emitted :: "string list \<Rightarrow> string \<Rightarrow> string \<Rightarrow> nat \<Rightarrow> string \<Rightarrow> string list" where
  "emitted table first second k x =
     (if x \<in> set table then (if k = 0 then [first] else if k = 1 then [second] else [])
      else [x])"

definition bounded_substitution :: "string list \<Rightarrow> string \<Rightarrow> string \<Rightarrow> string list \<Rightarrow> string list" where
  "bounded_substitution table first second xs =
     concat (map (\<lambda>i. emitted table first second
                          (length (filter (\<lambda>y. y \<in> set table) (take i xs))) (xs ! i))
                 [0..<length xs])"

text \<open>The same walk, started with \<open>k\<close> ingredients of the table already seen.\<close>

definition substitution_from :: "string list \<Rightarrow> string \<Rightarrow> string \<Rightarrow> nat \<Rightarrow> string list \<Rightarrow> string list" where
  "substitution_from table first second k xs =
     concat (map (\<lambda>i. emitted table first second
                          (k + length (filter (\<lambda>y. y \<in> set table) (take i xs))) (xs ! i))
                 [0..<length xs])"

text \<open>
  The sum of the contained dishes' preparation times, as an integer (the sum of their
  signed values), and that sum divided by the current size.
\<close>

definition prep_time_sum :: "Kitchen \<Rightarrow> int" where
  "prep_time_sum k = sum_list (map (\<lambda>d. sint (getPrepTime d)) (contained k))"

definition average_prep_time :: "Kitchen \<Rightarrow> rat" where
  "average_prep_time k = of_int (prep_time_sum k) / of_nat (getCurrentSize k)"

text \<open>
  The two counters agree with the contained dishes. Both are \<^verbatim>\<open>int\<close> members: the sum
  and the number are taken in 32-bit arithmetic.
\<close>

definition balanced :: "Kitchen \<Rightarrow> bool" where
  "balanced k =
     (total_prep_time' k = sum_list (map getPrepTime (contained k)) \<and>
      count_elaborate' k = of_nat (length (filter elaborate (contained k))))"

text \<open>The test of \<^verbatim>\<open>releaseDishesBelowPrepTime\<close> for a dish to serve.\<close>

definition below_prep_time :: "int32 \<Rightarrow> DishObj \<Rightarrow> bool" where
  "below_prep_time t d = (sint (getPrepTime d) < sint t)"

text \<open>
  The state of the loop of \<^verbatim>\<open>releaseDishesBelowPrepTime\<close> before index \<open>i\<close>, for a
  kitchen whose dishes are pairwise different: the slots from \<open>i\<close> up to the bound
  \<open>n\<close> hold distinct pointers to contained dishes, no two contained dishes are equal, and
  every contained dish that no such slot points to has been visited and kept.
\<close>

definition pending_ok :: "int32 \<Rightarrow> nat \<Rightarrow> nat \<Rightarrow> Kitchen \<Rightarrow> bool" where
  "pending_ok t n i k =
     (valid k \<and> i \<le> n \<and> n \<le> length (items' k) \<and> item_count' k \<le> n \<and>
      distinct (drop i (take n (items' k))) \<and>
      set (drop i (take n (items' k))) \<subseteq> set (take (item_count' k) (items' k)) \<and>
      inj_on (\<lambda>p. the (heap k p)) (set (take (item_count' k) (items' k))) \<and>
      (\<forall>p\<in>set (take (item_count' k) (items' k)) - set (drop i (take n (items' k))).
         \<not> below_prep_time t (the (heap k p))))"

section \<open>Example dishes, requests and kitchens\<close>

definition soup :: DishObj where
  "soup = AppetizerObj
     \<lparr>name' = ''Soup'', ingredients' = [''Water'', ''Salt''], prep_time' = 5,
      price' = 4, cuisine_type' = OTHER, serving_style' = PLATED, spiciness_level' = 0,
      vegetarian' = True\<rparr>"

definition feast :: DishObj where
  "feast = MainCourseObj
     \<lparr>name' = ''Feast'', ingredients' = [''Beef'', ''Chicken'', ''Pork'', ''Rice'', ''Salt''],
      prep_time' = 90, price' = 30, cuisine_type' = AMERICAN, cooking_method' = GRILLED,
      protein_type' = ''Beef'', side_dishes' = [], gluten_free' = False\<rparr>"

definition vegetarian_feast :: DishObj where
  "vegetarian_feast = MainCourseObj
     \<lparr>name' = ''Feast'', ingredients' = [''Beans'', ''Mushrooms'', ''Rice'', ''Salt''],
      prep_time' = 90, price' = 30, cuisine_type' = AMERICAN, cooking_method' = GRILLED,
      protein_type' = ''Tofu'', side_dishes' = [], gluten_free' = False\<rparr>"

definition cake :: DishObj where
  "cake = DessertObj
     \<lparr>name' = ''Cake'', ingredients' = [''Flour'', ''Sugar'', ''Eggs''], prep_time' = 21,
      price' = 6, cuisine_type' = FRENCH, flavor_profile' = SWEET, sweetness_level' = 7,
      contains_nuts' = False\<rparr>"

definition salad :: DishObj where
  "salad = AppetizerObj
     \<lparr>name' = ''Salad'', ingredients' = [''Lettuce'', ''Tomato''], prep_time' = 10,
      price' = 5, cuisine_type' = ITALIAN, serving_style' = FAMILY_STYLE,
      spiciness_level' = 1, vegetarian' = True\<rparr>"

definition stew :: DishObj where
  "stew = MainCourseObj
     \<lparr>name' = ''Stew'', ingredients' = [''Lamb'', ''Carrot''], prep_time' = 20,
      price' = 12, cuisine_type' = INDIAN, cooking_method' = BOILED,
      protein_type' = ''Lamb'', side_dishes' = [\<lparr>name = ''Naan'', category = BREAD\<rparr>],
      gluten_free' = False\<rparr>"

definition chicken_rice_shrimp_beef :: Appetizer where
  "chicken_rice_shrimp_beef =
     \<lparr>name' = ''Skewers'', ingredients' = [''Chicken'', ''Rice'', ''Shrimp'', ''Beef''],
      prep_time' = 25, price' = 9, cuisine_type' = CHINESE, serving_style' = BUFFET,
      spiciness_level' = 3, vegetarian' = False\<rparr>"

definition chicken_bread :: Appetizer where
  "chicken_bread =
     \<lparr>name' = ''Chicken Sandwich'', ingredients' = [''Chicken'', ''Bread''], prep_time' = 10,
      price' = 7, cuisine_type' = AMERICAN, serving_style' = PLATED, spiciness_level' = 1,
      vegetarian' = False\<rparr>"

definition milk_sugar_eggs :: Dessert where
  "milk_sugar_eggs =
     \<lparr>name' = ''Custard'', ingredients' = [''Milk'', ''Sugar'', ''Eggs''], prep_time' = 30,
      price' = 5, cuisine_type' = FRENCH, flavor_profile' = SWEET, sweetness_level' = 8,
      contains_nuts' = True\<rparr>"

definition almond_cake :: Dessert where
  "almond_cake =
     \<lparr>name' = ''Almond Cake'', ingredients' = [''Almonds'', ''Flour'', ''Milk''],
      prep_time' = 45, price' = 8, cuisine_type' = FRENCH, flavor_profile' = SWEET,
      sweetness_level' = 2, contains_nuts' = True\<rparr>"

definition vegetarian_only :: DietaryRequest where
  "vegetarian_only =
     \<lparr>vegetarian = True, vegan = False, gluten_free = False, nut_free = False,
      low_sodium = False, low_sugar = False\<rparr>"

definition vegetarian_gluten_free :: DietaryRequest where
  "vegetarian_gluten_free =
     \<lparr>vegetarian = True, vegan = False, gluten_free = True, nut_free = False,
      low_sodium = False, low_sugar = False\<rparr>"

definition nut_free_low_sugar_vegan :: DietaryRequest where
  "nut_free_low_sugar_vegan =
     \<lparr>vegetarian = False, vegan = True, gluten_free = False, nut_free = True,
      low_sodium = False, low_sugar = True\<rparr>"

definition nut_free_vegan :: DietaryRequest where
  "nut_free_vegan =
     \<lparr>vegetarian = False, vegan = True, gluten_free = False, nut_free = True,
      low_sodium = False, low_sugar = False\<rparr>"

text \<open>
  A kitchen of capacity two after \<^verbatim>\<open>newOrder\<close> of a feast and of a soup, and after
  \<^verbatim>\<open>serveDish\<close> of the feast; addresses 1 and 2 are the two allocations.
\<close>

definition only_feast :: Kitchen where
  "only_feast =
     \<lparr>heap = (\<lambda>p. None)(1 \<mapsto> feast), items' = [1, 0], item_count' = 1,
      total_prep_time' = 90, count_elaborate' = 1\<rparr>"

definition feast_and_soup :: Kitchen where
  "feast_and_soup =
     \<lparr>heap = (\<lambda>p. None)(1 \<mapsto> feast, 2 \<mapsto> soup), items' = [1, 2], item_count' = 2,
      total_prep_time' = 95, count_elaborate' = 1\<rparr>"

definition soup_left :: Kitchen where
  "soup_left =
     \<lparr>heap = (\<lambda>p. None)(2 \<mapsto> soup), items' = [2, 2], item_count' = 1,
      total_prep_time' = 5, count_elaborate' = 0\<rparr>"

text \<open>A kitchen of capacity three with preparation times 10, 20 and 21.\<close>

definition salad_stew_cake :: Kitchen where
  "salad_stew_cake =
     \<lparr>heap = (\<lambda>p. None)(1 \<mapsto> salad, 2 \<mapsto> stew, 3 \<mapsto> cake), items' = [1, 2, 3],
      item_count' = 3, total_prep_time' = 51, count_elaborate' = 0\<rparr>"

definition cake_left :: Kitchen where
  "cake_left =
     \<lparr>heap = (\<lambda>p. None)(3 \<mapsto> cake), items' = [3, 2, 3], item_count' = 1,
      total_prep_time' = 21, count_elaborate' = 0\<rparr>"

text \<open>A kitchen of capacity three after three orders of the same soup.\<close>

definition one_soup :: Kitchen where
  "one_soup =
     \<lparr>heap = (\<lambda>p. None)(1 \<mapsto> soup), items' = [1, 0, 0], item_count' = 1,
      total_prep_time' = 5, count_elaborate' = 0\<rparr>"

definition two_soups :: Kitchen where
  "two_soups =
     \<lparr>heap = (\<lambda>p. None)(1 \<mapsto> soup, 2 \<mapsto> soup), items' = [1, 2, 0], item_count' = 2,
      total_prep_time' = 10, count_elaborate' = 0\<rparr>"

definition three_soups :: Kitchen where
  "three_soups =
     \<lparr>heap = (\<lambda>p. None)(1 \<mapsto> soup, 2 \<mapsto> soup, 3 \<mapsto> soup), items' = [1, 2, 3],
      item_count' = 3, total_prep_time' = 15, count_elaborate' = 0\<rparr>"

section \<open>Unknown tokens\<close>

text \<open>
  Claim C8. The four conversions are total functions (each is a chain of comparisons
  that ends in a default, and nothing in it can fail), and a token that is none of the
  recognised tags is mapped to the default: \<open>OTHER\<close> for a cuisine, \<open>PLATED\<close> for a
  serving style, \<open>GRILLED\<close> for a cooking method and \<open>SWEET\<close> for a flavor profile.
\<close>

theorem unknown_token_default:
  "(str \<notin> {''ITALIAN'', ''MEXICAN'', ''CHINESE'', ''INDIAN'', ''AMERICAN'', ''FRENCH''} \<longrightarrow>
      stringToCuisineType str = OTHER) \<and>
   (str \<notin> {''PLATED'', ''BUFFET'', ''FAMILY_STYLE''} \<longrightarrow> stringToServingStyle str = PLATED) \<and>
   (str \<notin> {''GRILLED'', ''BAKED'', ''BOILED'', ''FRIED'', ''STEAMED'', ''RAW''} \<longrightarrow>
      stringToCookingMethod str = GRILLED) \<and>
   (str \<notin> {''SWEET'', ''BITTER'', ''SOUR'', ''SALTY'', ''UMAMI''} \<longrightarrow>
      stringToFlavorProfile str = SWEET)"
  by (simp add: stringToCuisineType_def stringToServingStyle_def stringToCookingMethod_def
      stringToFlavorProfile_def)

theorem unknown_token_default_witness:
  "''THAI'' \<notin> {''ITALIAN'', ''MEXICAN'', ''CHINESE'', ''INDIAN'', ''AMERICAN'', ''FRENCH''} \<and>
   stringToCuisineType ''THAI'' = OTHER \<and>
   ''THAI'' \<notin> {''PLATED'', ''BUFFET'', ''FAMILY_STYLE''} \<and>
   stringToServingStyle ''THAI'' = PLATED \<and>
   ''THAI'' \<notin> {''GRILLED'', ''BAKED'', ''BOILED'', ''FRIED'', ''STEAMED'', ''RAW''} \<and>
   stringToCookingMethod ''THAI'' = GRILLED \<and>
   ''THAI'' \<notin> {''SWEET'', ''BITTER'', ''SOUR'', ''SALTY'', ''UMAMI''} \<and>
   stringToFlavorProfile ''THAI'' = SWEET"
  using unknown_token_default [of "''THAI''"] by simp

section \<open>The passes over the ingredients\<close>

lemma is_listed_iff: "is_listed x table = (x \<in> set table)"
  by (induction table) auto

lemma remove_loop_filter:
  "remove_loop table xs acc = acc @ filter (\<lambda>y. y \<notin> set table) xs"
  by (induction xs arbitrary: acc) (auto simp: is_listed_iff)

lemma upt_shift_concat:
  "concat (map f [0..<Suc n]) = f 0 @ concat (map (\<lambda>i. f (Suc i)) [0..<n])"
proof -
  have "[0..<Suc n] = 0 # map Suc [0..<n]"
    by (simp add: upt_conv_Cons map_Suc_upt del: upt_Suc)
  then show ?thesis by (simp add: comp_def del: upt_Suc)
qed

lemma substitution_from_Nil: "substitution_from table first second k [] = []"
  by (simp add: substitution_from_def)

lemma substitution_from_Cons:
  "substitution_from table first second k (x # rest) =
     emitted table first second k x @
     substitution_from table first second (if x \<in> set table then Suc k else k) rest"
  unfolding substitution_from_def length_Cons upt_shift_concat
  by simp

text \<open>
  The loop with its two flags computes the walk of the specification; a state of the
  flags stands for the number of table ingredients met so far (none, one, two or more).
\<close>

lemma replace_loop_from:
  "fst (replace_loop table first second xs (acc, 0 < k, 1 < k)) =
     acc @ substitution_from table first second k xs"
proof (induction xs arbitrary: acc k)
  case Nil
  then show ?case by (simp add: substitution_from_Nil)
next
  case (Cons x rest)
  show ?case
  proof (cases "x \<in> set table")
    case False
    then show ?thesis
      using Cons.IH [of "acc @ [x]" k]
      by (simp add: is_listed_iff substitution_from_Cons emitted_def)
  next
    case True
    consider "k = 0" | "k = 1" | "1 < k" by linarith
    then show ?thesis
    proof cases
      case 1
      then show ?thesis
        using True Cons.IH [of "acc @ [first]" "Suc 0"]
        by (simp add: is_listed_iff substitution_from_Cons emitted_def)
    next
      case 2
      then show ?thesis
        using True Cons.IH [of "acc @ [second]" "Suc (Suc 0)"]
        by (simp add: is_listed_iff substitution_from_Cons emitted_def)
    next
      case 3
      then show ?thesis
        using True Cons.IH [of acc "Suc k"]
        by (simp add: is_listed_iff substitution_from_Cons emitted_def)
    qed
  qed
qed

lemma replace_loop_bounded_substitution:
  "fst (replace_loop table first second xs ([], False, False)) =
     bounded_substitution table first second xs"
  using replace_loop_from [of table first second xs "[]" 0]
  by (simp add: bounded_substitution_def substitution_from_def)

section \<open>Appetizers\<close>

text \<open>
  Claim C4, as stated, fails when the request also asks for gluten-free: the vegetarian
  pass turns Chicken, Bread into Beans, Bread, and the gluten-free pass of the same call
  then removes Bread, an ingredient that is not in the non-vegetarian table and yet is
  not copied through.
\<close>

theorem appetizer_vegetarian_counterexample:
  "vegetarian vegetarian_gluten_free \<and>
   ingredients' chicken_bread = [''Chicken'', ''Bread''] \<and>
   ''Bread'' \<notin> set non_vegetarian \<and>
   ingredients' (Appetizer_dietaryAccommodations vegetarian_gluten_free chicken_bread) = [''Beans''] \<and>
   bounded_substitution non_vegetarian ''Beans'' ''Mushrooms'' (ingredients' chicken_bread) =
     [''Beans'', ''Bread'']"
  by (simp add: Appetizer_dietaryAccommodations_def vegetarian_gluten_free_def chicken_bread_def
      bounded_substitution_def emitted_def non_vegetarian_def gluten_containing_def upt_rec)

text \<open>
  Claim C4, amended. For every appetizer and every request with \<open>vegetarian\<close> set, the
  call sets the vegetarian flag, and the ingredient list becomes the bounded substitution
  of the original list over the non-vegetarian table with Beans and Mushrooms (first
  table ingredient to Beans, second to Mushrooms, further ones dropped, all others
  copied in order); when the request also sets \<open>gluten_free\<close>, the gluten-free pass
  then removes the gluten-containing ingredients from that list. In particular Chicken,
  Rice, Shrimp, Beef become Beans, Rice, Mushrooms.
\<close>

theorem appetizer_vegetarian:
  "vegetarian request \<Longrightarrow>
   vegetarian' (Appetizer_dietaryAccommodations request a) = True \<and>
   ingredients' (Appetizer_dietaryAccommodations request a) =
     (if gluten_free request then
        filter (\<lambda>y. y \<notin> set gluten_containing)
          (bounded_substitution non_vegetarian ''Beans'' ''Mushrooms'' (ingredients' a))
      else bounded_substitution non_vegetarian ''Beans'' ''Mushrooms'' (ingredients' a)) \<and>
   (ingredients' a = [''Chicken'', ''Rice'', ''Shrimp'', ''Beef''] \<longrightarrow>
      ingredients' (Appetizer_dietaryAccommodations request a) =
        [''Beans'', ''Rice'', ''Mushrooms''])"
proof -
  assume v: "vegetarian request"
  have eq: "ingredients' (Appetizer_dietaryAccommodations request a) =
           (if gluten_free request then
              filter (\<lambda>y. y \<notin> set gluten_containing)
                (bounded_substitution non_vegetarian ''Beans'' ''Mushrooms'' (ingredients' a))
            else bounded_substitution non_vegetarian ''Beans'' ''Mushrooms'' (ingredients' a))"
    using v
    by (simp add: Appetizer_dietaryAccommodations_def Let_def remove_loop_filter
        replace_loop_bounded_substitution)
  have flag: "vegetarian' (Appetizer_dietaryAccommodations request a) = True"
    using v by (simp add: Appetizer_dietaryAccommodations_def Let_def)
  have ex: "bounded_substitution non_vegetarian ''Beans'' ''Mushrooms''
          [''Chicken'', ''Rice'', ''Shrimp'', ''Beef''] = [''Beans'', ''Rice'', ''Mushrooms'']"
    by (simp add: bounded_substitution_def emitted_def non_vegetarian_def upt_rec)
  have "ingredients' a = [''Chicken'', ''Rice'', ''Shrimp'', ''Beef''] \<longrightarrow>
         ingredients' (Appetizer_dietaryAccommodations request a) =
           [''Beans'', ''Rice'', ''Mushrooms'']"
    unfolding eq using ex by (simp add: gluten_containing_def)
  with eq flag show ?thesis by blast
qed

theorem appetizer_vegetarian_witness:
  "vegetarian vegetarian_only \<and>
   ingredients' chicken_rice_shrimp_beef = [''Chicken'', ''Rice'', ''Shrimp'', ''Beef''] \<and>
   vegetarian' (Appetizer_dietaryAccommodations vegetarian_only chicken_rice_shrimp_beef) \<and>
   ingredients' (Appetizer_dietaryAccommodations vegetarian_only chicken_rice_shrimp_beef) =
     [''Beans'', ''Rice'', ''Mushrooms'']"
proof -
  have v: "vegetarian vegetarian_only"
    by (simp add: vegetarian_only_def)
  have i: "ingredients' chicken_rice_shrimp_beef = [''Chicken'', ''Rice'', ''Shrimp'', ''Beef'']"
    by (simp add: chicken_rice_shrimp_beef_def)
  from appetizer_vegetarian [OF v, of chicken_rice_shrimp_beef] i v show ?thesis
    by blast
qed

section \<open>Desserts\<close>

text \<open>
  Claim C1 at the dessert of the specification's example: ingredients Milk, Sugar, Eggs,
  sweetness level 8, contains nuts, and a request with \<open>nut_free\<close>, \<open>low_sugar\<close> and
  \<open>vegan\<close>. The call clears the nuts flag and lowers the sweetness level to 5, and
  it leaves the dessert with no ingredients at all, where the claim expects Almond Milk,
  Sugar, Flax Egg: the vegan pass iterates over the vector it has just cleared.
\<close>

theorem dessert_all_three_evaluated:
  "Dessert_dietaryAccommodations nut_free_low_sugar_vegan milk_sugar_eggs =
     milk_sugar_eggs\<lparr>ingredients' := [], sweetness_level' := 5, contains_nuts' := False\<rparr>"
  by (simp add: Dessert_dietaryAccommodations_def nut_free_low_sugar_vegan_def
      milk_sugar_eggs_def nuts_def std_max_def)

text \<open>
  Claim C10. For every dessert and every request with both \<open>nut_free\<close> and \<open>vegan\<close>
  set, the ingredient list is empty after the call, whatever it was before.
\<close>

theorem dessert_nut_free_vegan_empty:
  "nut_free request \<Longrightarrow> vegan request \<Longrightarrow>
   ingredients' (Dessert_dietaryAccommodations request d) = []"
  by (simp add: Dessert_dietaryAccommodations_def Let_def split: prod.splits)

theorem dessert_nut_free_vegan_empty_witness:
  "nut_free nut_free_vegan \<and> vegan nut_free_vegan \<and>
   ingredients' almond_cake = [''Almonds'', ''Flour'', ''Milk''] \<and>
   ingredients' (Dessert_dietaryAccommodations nut_free_vegan almond_cake) = []"
proof -
  have n: "nut_free nut_free_vegan" and v: "vegan nut_free_vegan"
    by (simp_all add: nut_free_vegan_def)
  have i: "ingredients' almond_cake = [''Almonds'', ''Flour'', ''Milk'']"
    by (simp add: almond_cake_def)
  from dessert_nut_free_vegan_empty [OF n v, of almond_cake] n v i show ?thesis
    by blast
qed

text \<open>
  What \<^verbatim>\<open>Dessert::dietaryAccommodations\<close> does for every request: the nut-free pass
  clears the flag, the low-sugar pass lowers the sweetness level, and the ingredient list
  is emptied by the nut-free and vegan passes together, substituted by the vegan pass
  alone, and filtered by the nut-free pass alone.
\<close>

theorem dessert_accommodations:
  "contains_nuts' (Dessert_dietaryAccommodations request d) =
     (if nut_free request then False else contains_nuts' d) \<and>
   sweetness_level' (Dessert_dietaryAccommodations request d) =
     (if low_sugar request then std_max 0 (sweetness_level' d - 3) else sweetness_level' d) \<and>
   ingredients' (Dessert_dietaryAccommodations request d) =
     (if vegan request then
        (if nut_free request then []
         else bounded_substitution dairy_and_eggs ''Almond Milk'' ''Flax Egg'' (ingredients' d))
      else if nut_free request then filter (\<lambda>y. y \<notin> set nuts) (ingredients' d)
      else ingredients' d)"
  by (simp add: Dessert_dietaryAccommodations_def Let_def remove_loop_filter
      replace_loop_bounded_substitution split: prod.splits)

section \<open>Main courses\<close>

lemma side_dish_loop_filter:
  "side_dish_loop sides acc =
     acc @ filter (\<lambda>s. category s \<notin> {GRAIN, PASTA, BREAD, STARCHES}) sides"
  by (induction sides arbitrary: acc) auto

text \<open>
  What \<^verbatim>\<open>MainCourse::dietaryAccommodations\<close> does for every request: the vegetarian and
  the vegan pass set the protein to Tofu; the ingredients go through the bounded
  substitution when vegetarian is set and then lose the dairy and egg ingredients when
  vegan is set; the gluten-free pass sets the flag and removes the side dishes of the
  categories GRAIN, PASTA, BREAD and STARCHES.
\<close>

theorem maincourse_accommodations:
  "protein_type' (MainCourse_dietaryAccommodations request m) =
     (if vegetarian request \<or> vegan request then ''Tofu'' else protein_type' m) \<and>
   ingredients' (MainCourse_dietaryAccommodations request m) =
     (if vegan request then filter (\<lambda>y. y \<notin> set dairy_and_eggs) else (\<lambda>xs. xs))
       ((if vegetarian request
         then bounded_substitution non_vegetarian ''Beans'' ''Mushrooms''
         else (\<lambda>xs. xs)) (ingredients' m)) \<and>
   gluten_free' (MainCourse_dietaryAccommodations request m) =
     (if gluten_free request then True else gluten_free' m) \<and>
   side_dishes' (MainCourse_dietaryAccommodations request m) =
     (if gluten_free request
      then filter (\<lambda>s. category s \<notin> {GRAIN, PASTA, BREAD, STARCHES}) (side_dishes' m)
      else side_dishes' m)"
  by (simp add: MainCourse_dietaryAccommodations_def Let_def remove_loop_filter
      replace_loop_bounded_substitution side_dish_loop_filter)

section \<open>Scanning and removing in a valid kitchen\<close>

lemma serveDish_scan_total:
  "set ps \<subseteq> dom h \<Longrightarrow> \<exists>r. serveDish_scan h d ps i = Inr r"
  by (induction ps arbitrary: i) (auto split: option.splits)

lemma serveDish_scan_None:
  "set ps \<subseteq> dom h \<Longrightarrow> \<forall>p\<in>set ps. \<not> Dish_equal (the (h p)) d \<Longrightarrow>
   serveDish_scan h d ps i = Inr None"
  by (induction ps arbitrary: i) (auto split: option.splits)

lemma serveDish_scan_Some:
  "serveDish_scan h d ps i = Inr (Some (j, x)) \<Longrightarrow>
   i \<le> j \<and> j - i < length ps \<and> h (ps ! (j - i)) = Some x \<and> Dish_equal x d"
proof (induction ps arbitrary: i)
  case Nil
  then show ?case by simp
next
  case (Cons p ps)
  show ?case
  proof (cases "h p")
    case None
    with Cons.prems show ?thesis by simp
  next
    case (Some y)
    show ?thesis
    proof (cases "Dish_equal y d")
      case True
      with Some Cons.prems show ?thesis by simp
    next
      case False
      with Some Cons.prems have "serveDish_scan h d ps (Suc i) = Inr (Some (j, x))" by simp
      from Cons.IH [OF this] show ?thesis
        by (auto simp: Suc_diff_Suc less_eq_Suc_le)
    qed
  qed
qed

lemma serveDish_scan_finds:
  "set ps \<subseteq> dom h \<Longrightarrow> p \<in> set ps \<Longrightarrow> Dish_equal (the (h p)) d \<Longrightarrow>
   \<exists>j x. serveDish_scan h d ps i = Inr (Some (j, x))"
  by (induction ps arbitrary: i) (auto split: option.splits)

lemma index_from_distinct:
  "distinct ps \<Longrightarrow> j < length ps \<Longrightarrow> index_from (ps ! j) ps i = Some (i + j)"
proof (induction ps arbitrary: i j)
  case Nil
  then show ?case by simp
next
  case (Cons p ps)
  show ?case
  proof (cases j)
    case 0
    then show ?thesis by simp
  next
    case (Suc j')
    with Cons.prems have "ps ! j' \<noteq> p" by auto
    with Suc Cons show ?thesis by simp
  qed
qed

text \<open>
  Overwriting slot \<open>j\<close> with the last element and dropping the last slot removes one
  occurrence of the element of slot \<open>j\<close>, and nothing else.
\<close>

lemma mset_butlast:
  assumes "ys \<noteq> []"
  shows "mset (butlast ys) = mset ys - {#last ys#}"
proof -
  have "mset ys = mset (butlast ys @ [last ys])" using assms by simp
  then show ?thesis by simp
qed

lemma swap_remove_mset:
  assumes "j < n" "n \<le> length xs"
  shows "mset (take (n - 1) (xs[j := xs ! (n - 1)])) = mset (take n xs) - {#xs ! j#}"
proof -
  define ys where "ys = take n xs"
  have len: "length ys = n" using assms by (simp add: ys_def)
  have ne: "ys \<noteq> []" using len assms by auto
  have last: "last ys = xs ! (n - 1)"
    using assms len ne by (simp add: ys_def last_conv_nth)
  have yj: "ys ! j = xs ! j" using assms by (simp add: ys_def)
  have "take (n - 1) (xs[j := xs ! (n - 1)]) = butlast (ys[j := last ys])"
    unfolding last using assms len
    by (simp add: ys_def butlast_conv_take take_update_swap min_def)
  also have "mset \<dots> = mset (ys[j := last ys]) - {#last (ys[j := last ys])#}"
    using ne len by (simp add: mset_butlast)
  also have "last (ys[j := last ys]) = last ys"
    using ne len assms by (cases "j = n - 1") (auto simp: last_conv_nth nth_list_update)
  also have "mset (ys[j := last ys]) = add_mset (last ys) (mset ys - {#ys ! j#})"
    using len assms by (simp add: mset_update)
  finally show ?thesis using assms by (simp add: ys_def)
qed

lemma swap_remove_distinct:
  assumes "distinct (take n xs)" "j < n" "n \<le> length xs"
  shows "distinct (take (n - 1) (xs[j := xs ! (n - 1)]))"
    and "set (take (n - 1) (xs[j := xs ! (n - 1)])) = set (take n xs) - {xs ! j}"
proof -
  let ?zs = "take (n - 1) (xs[j := xs ! (n - 1)])"
  let ?ps = "take n xs"
  have eq: "mset ?zs = mset ?ps - {#xs ! j#}"
    using assms(2,3) by (rule swap_remove_mset)
  have ps: "count (mset ?ps) a = (if a \<in> set ?ps then 1 else 0)" for a
    using assms(1) by (simp add: distinct_count_atmost_1)
  have zs: "count (mset ?zs) a = (if a \<in> set ?ps \<and> a \<noteq> xs ! j then 1 else 0)" for a
    unfolding eq using ps [of a] by simp
  have mem: "a \<in> set ?zs \<longleftrightarrow> a \<in> set ?ps \<and> a \<noteq> xs ! j" for a
    using zs [of a] by (metis count_mset_0_iff zero_neq_one)
  show "set ?zs = set ?ps - {xs ! j}"
    using mem by auto
  show "distinct ?zs"
    unfolding distinct_count_atmost_1 using zs mem by simp
qed

text \<open>
  In a valid kitchen \<^verbatim>\<open>serveDish\<close> never faults: either it finds nothing and returns
  false with the kitchen untouched, or it finds the dish at some slot \<open>j\<close> and returns
  true with the counters updated, the object deleted and the slot overwritten.
\<close>

lemma serveDish_cases:
  assumes "valid k"
  shows "serveDish d k = Inr (False, k) \<or>
         (\<exists>j x. j < item_count' k \<and> heap k (items' k ! j) = Some x \<and> Dish_equal x d \<and>
            serveDish d k =
              Inr (True,
                   k\<lparr>total_prep_time' := total_prep_time' k - getPrepTime x,
                     count_elaborate' :=
                       (if elaborate x then count_elaborate' k - 1 else count_elaborate' k),
                     heap := (heap k)(items' k ! j := None),
                     items' := (items' k)[j := items' k ! (item_count' k - 1)],
                     item_count' := item_count' k - 1\<rparr>))"
proof (cases "item_count' k = 0")
  case True
  then show ?thesis by (simp add: serveDish_def getCurrentSize_def)
next
  case False
  let ?ps = "take (item_count' k) (items' k)"
  from assms have sub: "set ?ps \<subseteq> dom (heap k)" and dist: "distinct ?ps"
    and le: "item_count' k \<le> length (items' k)"
    by (simp_all add: valid_def)
  from serveDish_scan_total [OF sub] obtain r where r: "serveDish_scan (heap k) d ?ps 0 = Inr r"
    by blast
  show ?thesis
  proof (cases r)
    case None
    with r False show ?thesis by (simp add: serveDish_def getCurrentSize_def)
  next
    case (Some jx)
    obtain j x where jx: "jx = (j, x)" by (cases jx)
    note found = serveDish_scan_Some [OF r [unfolded Some jx]]
    from found le have j: "j < item_count' k" by simp
    from found have e: "Dish_equal x d" by simp
    from found have "heap k (?ps ! (j - 0)) = Some x" by blast
    with j have x: "heap k (items' k ! j) = Some x" by simp
    have idx: "index_from (items' k ! j) ?ps 0 = Some j"
      using index_from_distinct [OF dist, of j 0] j le by simp
    have "serveDish d k =
              Inr (True,
                   k\<lparr>total_prep_time' := total_prep_time' k - getPrepTime x,
                     count_elaborate' :=
                       (if elaborate x then count_elaborate' k - 1 else count_elaborate' k),
                     heap := (heap k)(items' k ! j := None),
                     items' := (items' k)[j := items' k ! (item_count' k - 1)],
                     item_count' := item_count' k - 1\<rparr>)"
      using r False idx
      by (simp add: serveDish_def getCurrentSize_def Some jx Let_def ArrayBag_remove_def
          elaborate_def)
    with j x e show ?thesis by blast
  qed
qed

lemma remove_one_sum_count:
  fixes g :: "'a \<Rightarrow> int32"
  assumes "mset ys' = mset ys - {#x#}" "x \<in> set ys"
  shows "sum_list (map g ys) = g x + sum_list (map g ys')"
    and "length (filter P ys) = (if P x then 1 else 0) + length (filter P ys')"
proof -
  from assms have eq: "mset ys = mset (x # ys')" by simp
  have "sum_list (map g ys) = sum_list (map g (x # ys'))"
    using eq by (metis mset_map sum_mset_sum_list)
  then show "sum_list (map g ys) = g x + sum_list (map g ys')" by simp
  have "length (filter P ys) = length (filter P (x # ys'))"
    using eq by (metis mset_filter size_mset)
  then show "length (filter P ys) = (if P x then 1 else 0) + length (filter P ys')" by simp
qed

lemma served_state:
  assumes v: "valid k" and j: "j < item_count' k" and x: "heap k (items' k ! j) = Some x"
    and k': "k' = k\<lparr>total_prep_time' := t, count_elaborate' := c,
                     heap := (heap k)(items' k ! j := None),
                     items' := (items' k)[j := items' k ! (item_count' k - 1)],
                     item_count' := item_count' k - 1\<rparr>"
  shows "valid k'" and "mset (contained k') = mset (contained k) - {#x#}"
    and "x \<in> set (contained k)"
proof -
  let ?n = "item_count' k"
  let ?ps = "take ?n (items' k)"
  let ?zs = "take (?n - 1) ((items' k)[j := items' k ! (?n - 1)])"
  let ?f = "\<lambda>p. the (heap k p)"
  from v have sub: "set ?ps \<subseteq> dom (heap k)" and dist: "distinct ?ps"
    and le: "?n \<le> length (items' k)"
    by (simp_all add: valid_def)
  note d = swap_remove_distinct [OF dist j le]
  have m: "mset ?zs = mset ?ps - {#items' k ! j#}"
    using j le by (rule swap_remove_mset)
  have mem: "items' k ! j \<in> set ?ps"
    using j le by (metis length_take min.absorb2 nth_mem nth_take)
  show "valid k'"
    using d sub le j by (auto simp: valid_def k')
  have "contained k' = map ?f ?zs"
    using d(2) by (simp add: contained_def k')
  then have "mset (contained k') = image_mset ?f (mset ?ps - {#items' k ! j#})"
    using m by simp
  also have "\<dots> = image_mset ?f (mset ?ps) - {#?f (items' k ! j)#}"
    using mem by (simp add: image_mset_Diff)
  finally show "mset (contained k') = mset (contained k) - {#x#}"
    using x by (simp add: contained_def)
  show "x \<in> set (contained k)"
    using mem x unfolding contained_def by force
qed

lemma serveDish_not_false:
  assumes v: "valid k" and d: "d \<in> set (contained k)"
  shows "serveDish d k \<noteq> Inr (False, k)"
proof -
  let ?ps = "take (item_count' k) (items' k)"
  from v have sub: "set ?ps \<subseteq> dom (heap k)" by (simp add: valid_def)
  from d obtain p where p: "p \<in> set ?ps" and dp: "d = the (heap k p)"
    by (auto simp: contained_def)
  from p have ne: "item_count' k \<noteq> 0" by (cases "item_count' k") auto
  from serveDish_scan_finds [OF sub p, of d 0] dp
  obtain j x where "serveDish_scan (heap k) d ?ps 0 = Inr (Some (j, x))"
    by (auto simp: Dish_equal_def)
  then show ?thesis
    using ne by (simp add: serveDish_def getCurrentSize_def Let_def)
qed

lemma serveDish_present:
  assumes v: "valid k" and m: "m < item_count' k" and x: "heap k (items' k ! m) = Some x"
    and inj: "inj_on (\<lambda>p. the (heap k p)) (set (take (item_count' k) (items' k)))"
  shows "\<exists>j. j < item_count' k \<and> items' k ! j = items' k ! m \<and>
           serveDish x k =
              Inr (True,
                   k\<lparr>total_prep_time' := total_prep_time' k - getPrepTime x,
                     count_elaborate' :=
                       (if elaborate x then count_elaborate' k - 1 else count_elaborate' k),
                     heap := (heap k)(items' k ! m := None),
                     items' := (items' k)[j := items' k ! (item_count' k - 1)],
                     item_count' := item_count' k - 1\<rparr>)"
proof -
  let ?ps = "take (item_count' k) (items' k)"
  from v have sub: "set ?ps \<subseteq> dom (heap k)" and le: "item_count' k \<le> length (items' k)"
    by (simp_all add: valid_def)
  have mem: "items' k ! m \<in> set ?ps"
    using m le by (metis length_take min.absorb2 nth_mem nth_take)
  have ne: "item_count' k \<noteq> 0" using m by simp
  from serveDish_scan_finds [OF sub mem, of x 0] x
  obtain j0 x0 where s: "serveDish_scan (heap k) x ?ps 0 = Inr (Some (j0, x0))"
    by (auto simp: Dish_equal_def)
  then have nf: "serveDish x k \<noteq> Inr (False, k)"
    using ne by (simp add: serveDish_def getCurrentSize_def Let_def)
  from serveDish_cases [OF v, of x] nf
  obtain j y where j: "j < item_count' k" and y: "heap k (items' k ! j) = Some y"
    and e: "Dish_equal y x"
    and r: "serveDish x k =
              Inr (True,
                   k\<lparr>total_prep_time' := total_prep_time' k - getPrepTime y,
                     count_elaborate' :=
                       (if elaborate y then count_elaborate' k - 1 else count_elaborate' k),
                     heap := (heap k)(items' k ! j := None),
                     items' := (items' k)[j := items' k ! (item_count' k - 1)],
                     item_count' := item_count' k - 1\<rparr>)"
    by blast
  from e have yx: "y = x" by (simp add: Dish_equal_def)
  have memj: "items' k ! j \<in> set ?ps"
    using j le by (metis length_take min.absorb2 nth_mem nth_take)
  have "the (heap k (items' k ! j)) = the (heap k (items' k ! m))"
    using x y yx by simp
  from inj_onD [OF inj this memj mem] have "items' k ! j = items' k ! m" .
  with j r yx show ?thesis by auto
qed

text \<open>
  \<^verbatim>\<open>newOrder\<close> of a freshly allocated dish never faults: it returns false in a full
  kitchen and true otherwise.
\<close>

lemma newOrder_cases:
  assumes "valid k" "heap k p = None"
  shows "(item_count' k = length (items' k) \<and>
          newOrder p (k\<lparr>heap := (heap k)(p \<mapsto> d)\<rparr>) =
            Inr (False, k\<lparr>heap := (heap k)(p \<mapsto> d)\<rparr>)) \<or>
         (item_count' k < length (items' k) \<and>
          newOrder p (k\<lparr>heap := (heap k)(p \<mapsto> d)\<rparr>) =
            Inr (True,
                 k\<lparr>heap := (heap k)(p \<mapsto> d),
                   items' := (items' k)[item_count' k := p],
                   item_count' := Suc (item_count' k),
                   total_prep_time' := total_prep_time' k + getPrepTime d,
                   count_elaborate' :=
                     (if elaborate d then count_elaborate' k + 1 else count_elaborate' k)\<rparr>))"
  using assms
  by (auto simp: newOrder_def ArrayBag_add_def getCurrentSize_def getCapacity_def valid_def
      elaborate_def)

lemma fresh_not_contained:
  assumes "valid k" "heap k p = None"
  shows "p \<notin> set (take (item_count' k) (items' k))"
  using assms by (auto simp: valid_def)

lemma allocated_state:
  assumes "valid k" "heap k p = None"
  shows "valid (k\<lparr>heap := (heap k)(p \<mapsto> d)\<rparr>)"
    and "contained (k\<lparr>heap := (heap k)(p \<mapsto> d)\<rparr>) = contained k"
  using assms fresh_not_contained [OF assms]
  by (auto simp: valid_def contained_def)

lemma ordered_state:
  assumes v: "valid k" and p: "heap k p = None" and lt: "item_count' k < length (items' k)"
    and k': "k' = k\<lparr>heap := (heap k)(p \<mapsto> d),
                   items' := (items' k)[item_count' k := p],
                   item_count' := Suc (item_count' k),
                   total_prep_time' := t, count_elaborate' := c\<rparr>"
  shows "valid k'" and "contained k' = contained k @ [d]"
proof -
  have tk: "take (Suc (item_count' k)) ((items' k)[item_count' k := p]) =
            take (item_count' k) (items' k) @ [p]"
    using lt by (simp add: take_Suc_conv_app_nth)
  note fresh = fresh_not_contained [OF v p]
  show "valid k'"
    using v lt fresh by (auto simp: valid_def k' tk)
  show "contained k' = contained k @ [d]"
    using fresh by (simp add: contained_def k' tk)
qed

lemma valid_Kitchen_new: "valid (Kitchen_new slots)"
  by (simp add: valid_def Kitchen_new_def)

lemma Kitchen_new_ok: "valid (Kitchen_new slots) \<and> balanced (Kitchen_new slots)"
  by (simp add: valid_def balanced_def contained_def Kitchen_new_def)

lemma newOrder_preserves:
  assumes "valid k" "balanced k" "heap k p = None"
    and "newOrder p (k\<lparr>heap := (heap k)(p \<mapsto> d)\<rparr>) = Inr (b, k')"
  shows "valid k' \<and> balanced k'"
  using newOrder_cases [OF assms(1,3), of d]
proof
  assume "item_count' k = length (items' k) \<and>
          newOrder p (k\<lparr>heap := (heap k)(p \<mapsto> d)\<rparr>) =
            Inr (False, k\<lparr>heap := (heap k)(p \<mapsto> d)\<rparr>)"
  with assms(4) have "k' = k\<lparr>heap := (heap k)(p \<mapsto> d)\<rparr>" by simp
  with allocated_state [OF assms(1,3), of d] assms(2) show ?thesis
    by (simp add: balanced_def)
next
  let ?k' = "k\<lparr>heap := (heap k)(p \<mapsto> d),
                   items' := (items' k)[item_count' k := p],
                   item_count' := Suc (item_count' k),
                   total_prep_time' := total_prep_time' k + getPrepTime d,
                   count_elaborate' :=
                     (if elaborate d then count_elaborate' k + 1 else count_elaborate' k)\<rparr>"
  assume a: "item_count' k < length (items' k) \<and>
          newOrder p (k\<lparr>heap := (heap k)(p \<mapsto> d)\<rparr>) = Inr (True, ?k')"
  with assms(4) have k': "k' = ?k'" by simp
  from a have lt: "item_count' k < length (items' k)" by simp
  note st = ordered_state [OF assms(1,3) lt k']
  have "balanced k'"
    using assms(2) unfolding balanced_def st(2) by (simp add: k')
  with st(1) show ?thesis by simp
qed

lemma serveDish_preserves:
  assumes "valid k" "balanced k" "serveDish d k = Inr (b, k')"
  shows "valid k' \<and> balanced k'"
  using serveDish_cases [OF assms(1), of d]
proof
  assume "serveDish d k = Inr (False, k)"
  with assms show ?thesis by simp
next
  assume "\<exists>j x. j < item_count' k \<and> heap k (items' k ! j) = Some x \<and> Dish_equal x d \<and>
            serveDish d k =
              Inr (True,
                   k\<lparr>total_prep_time' := total_prep_time' k - getPrepTime x,
                     count_elaborate' :=
                       (if elaborate x then count_elaborate' k - 1 else count_elaborate' k),
                     heap := (heap k)(items' k ! j := None),
                     items' := (items' k)[j := items' k ! (item_count' k - 1)],
                     item_count' := item_count' k - 1\<rparr>)"
  then obtain j x where j: "j < item_count' k" and x: "heap k (items' k ! j) = Some x"
    and k': "k' = k\<lparr>total_prep_time' := total_prep_time' k - getPrepTime x,
                     count_elaborate' :=
                       (if elaborate x then count_elaborate' k - 1 else count_elaborate' k),
                     heap := (heap k)(items' k ! j := None),
                     items' := (items' k)[j := items' k ! (item_count' k - 1)],
                     item_count' := item_count' k - 1\<rparr>"
    using assms(3) by auto
  note st = served_state [OF assms(1) j x k']
  note rm = remove_one_sum_count [OF st(2,3)]
  have t: "total_prep_time' k' = total_prep_time' k - getPrepTime x"
    and c: "count_elaborate' k' =
             (if elaborate x then count_elaborate' k - 1 else count_elaborate' k)"
    by (simp_all add: k')
  have "balanced k'"
    using assms(2) unfolding balanced_def t c rm(1) [of getPrepTime] rm(2) [of elaborate]
    by simp
  with st(1) show ?thesis by simp
qed

lemma valid_length_contained: "valid k \<Longrightarrow> length (contained k) = item_count' k"
  by (simp add: valid_def contained_def)

section \<open>The example kitchens\<close>

lemma soup_simps: "getPrepTime soup = 5" "getIngredients soup = [''Water'', ''Salt'']"
  by (simp_all add: soup_def)

lemma feast_simps: "getPrepTime feast = 90"
  "getIngredients feast = [''Beef'', ''Chicken'', ''Pork'', ''Rice'', ''Salt'']"
  by (simp_all add: feast_def)

lemma prep_times: "getPrepTime salad = 10" "getPrepTime stew = 20" "getPrepTime cake = 21"
  by (simp_all add: salad_def stew_def cake_def)

lemma dishes_differ: "feast \<noteq> soup" "soup \<noteq> feast" "feast \<noteq> cake" "soup \<noteq> cake"
  by (simp_all add: feast_def soup_def cake_def)

lemma not_elaborate: "\<not> elaborate soup" "elaborate feast"
  by (simp_all add: elaborate_def soup_def feast_def)

lemma vegetarian_feast_not_elaborate: "\<not> elaborate vegetarian_feast"
  by (simp add: elaborate_def vegetarian_feast_def)

lemma order_feast:
  "newOrder 1 ((Kitchen_new [0, 0])\<lparr>heap := (heap (Kitchen_new [0, 0]))(1 \<mapsto> feast)\<rparr>) =
     Inr (True, only_feast)"
  by (simp add: newOrder_def ArrayBag_add_def getCurrentSize_def getCapacity_def
      Kitchen_new_def only_feast_def feast_simps)

lemma order_soup:
  "newOrder 2 (only_feast\<lparr>heap := (heap only_feast)(2 \<mapsto> soup)\<rparr>) = Inr (True, feast_and_soup)"
  by (simp add: newOrder_def ArrayBag_add_def getCurrentSize_def getCapacity_def
      only_feast_def feast_and_soup_def soup_simps)

lemma serve_feast: "serveDish feast feast_and_soup = Inr (True, soup_left)"
  by (simp add: serveDish_def ArrayBag_remove_def getCurrentSize_def Dish_equal_def
      feast_and_soup_def soup_left_def feast_simps fun_upd_twist)

lemma reachable_feast_and_soup: "reachable feast_and_soup"
proof -
  have "reachable (Kitchen_new [0, 0])" by (rule reachable.start)
  then have "reachable only_feast"
    by (rule reachable.order [OF _ _ order_feast]) (simp add: Kitchen_new_def)
  then show ?thesis
    by (rule reachable.order [OF _ _ order_soup]) (simp add: only_feast_def)
qed

lemma reachable_soup_left: "reachable soup_left"
  by (rule reachable.serve [OF reachable_feast_and_soup serve_feast])

lemma valid_feast_and_soup: "valid feast_and_soup"
  by (simp add: valid_def feast_and_soup_def)

lemma contained_feast_and_soup: "contained feast_and_soup = [feast, soup]"
  by (simp add: contained_def feast_and_soup_def)

lemma contained_soup_left: "contained soup_left = [soup]"
  by (simp add: contained_def soup_left_def)

lemma valid_salad_stew_cake: "valid salad_stew_cake"
  by (simp add: valid_def salad_stew_cake_def)

lemma contained_salad_stew_cake: "contained salad_stew_cake = [salad, stew, cake]"
  by (simp add: contained_def salad_stew_cake_def)

lemma order_first_soup:
  "newOrder 1 ((Kitchen_new [0, 0, 0])\<lparr>heap := (heap (Kitchen_new [0, 0, 0]))(1 \<mapsto> soup)\<rparr>) =
     Inr (True, one_soup)"
  by (simp add: newOrder_def ArrayBag_add_def getCurrentSize_def getCapacity_def
      Kitchen_new_def soup_simps one_soup_def)

lemma order_second_soup:
  "newOrder 2 (one_soup\<lparr>heap := (heap one_soup)(2 \<mapsto> soup)\<rparr>) = Inr (True, two_soups)"
  by (simp add: newOrder_def ArrayBag_add_def getCurrentSize_def getCapacity_def soup_simps
      one_soup_def two_soups_def)

lemma order_third_soup:
  "newOrder 3 (two_soups\<lparr>heap := (heap two_soups)(3 \<mapsto> soup)\<rparr>) = Inr (True, three_soups)"
  by (simp add: newOrder_def ArrayBag_add_def getCurrentSize_def getCapacity_def soup_simps
      two_soups_def three_soups_def)

lemma reachable_three_soups: "reachable three_soups"
proof -
  have "reachable (Kitchen_new [0, 0, 0])" by (rule reachable.start)
  then have "reachable one_soup"
    by (rule reachable.order [OF _ _ order_first_soup]) (simp add: Kitchen_new_def)
  then have "reachable two_soups"
    by (rule reachable.order [OF _ _ order_second_soup]) (simp add: one_soup_def)
  then show ?thesis
    by (rule reachable.order [OF _ _ order_third_soup]) (simp add: two_soups_def)
qed

section \<open>Bookkeeping\<close>

lemma sum_list_word_of_int:
  fixes ws :: "int32 list"
  shows "sum_list ws = word_of_int (sum_list (map sint ws))"
  by (induction ws) simp_all

lemma sint_sum_list:
  fixes ws :: "int32 list"
  assumes "- (2 ^ 31) \<le> sum_list (map sint ws)" "sum_list (map sint ws) < 2 ^ 31"
  shows "sint (sum_list ws) = sum_list (map sint ws)"
proof -
  have "sint (sum_list ws) = sint (word_of_int (sum_list (map sint ws)) :: int32)"
    using sum_list_word_of_int [of ws] by simp
  also have "\<dots> = sum_list (map sint ws)"
    using assms by (simp add: sint_sbintrunc' signed_take_bit_int_eq_self)
  finally show ?thesis .
qed

lemma sint_of_nat_small:
  assumes "m < 2 ^ 31"
  shows "sint (of_nat m :: int32) = int m"
proof -
  have "sint (word_of_int (int m) :: int32) = signed_take_bit (LENGTH(32) - 1) (int m)"
    by (rule sint_sbintrunc')
  also have "\<dots> = int m"
    using assms by (simp add: signed_take_bit_int_eq_self)
  finally show ?thesis by simp
qed

text \<open>
  Claim C3. Every kitchen reachable from the empty kitchen by \<^verbatim>\<open>newOrder\<close> and
  \<^verbatim>\<open>serveDish\<close> calls is valid, its \<^verbatim>\<open>total_prep_time_\<close> is the sum of the
  preparation times of the contained dishes, and its \<^verbatim>\<open>count_elaborate_\<close> is the number
  of contained dishes with at least 5 ingredients and a preparation time of at least 60.
  Both members are \<^verbatim>\<open>int\<close>: the equations hold in 32-bit arithmetic, and they hold
  between the integers whenever the sum of the preparation times fits into an
  \<^verbatim>\<open>int\<close> (for the number: whenever the capacity does).
\<close>

theorem bookkeeping_invariant:
  "reachable k \<Longrightarrow>
   valid k \<and>
   total_prep_time' k = sum_list (map getPrepTime (contained k)) \<and>
   count_elaborate' k = of_nat (length (filter elaborate (contained k))) \<and>
   (- (2 ^ 31) \<le> prep_time_sum k \<and> prep_time_sum k < 2 ^ 31 \<longrightarrow>
      sint (total_prep_time' k) = prep_time_sum k) \<and>
   (getCapacity k < 2 ^ 31 \<longrightarrow>
      sint (count_elaborate' k) = int (length (filter elaborate (contained k))))"
proof -
  assume "reachable k"
  then have "valid k \<and> balanced k"
  proof (induction rule: reachable.induct)
    case (start slots)
    show ?case by (rule Kitchen_new_ok)
  next
    case (order k p d b k')
    then show ?case using newOrder_preserves by blast
  next
    case (serve k d b k')
    then show ?case using serveDish_preserves by blast
  qed
  then have v: "valid k"
    and t: "total_prep_time' k = sum_list (map getPrepTime (contained k))"
    and c: "count_elaborate' k = of_nat (length (filter elaborate (contained k)))"
    by (simp_all add: balanced_def)
  have s: "sint (total_prep_time' k) = prep_time_sum k"
    if "- (2 ^ 31) \<le> prep_time_sum k" "prep_time_sum k < 2 ^ 31"
    using sint_sum_list [of "map getPrepTime (contained k)"] that
    by (simp add: t prep_time_sum_def comp_def)
  have "length (filter elaborate (contained k)) \<le> length (contained k)"
    by simp
  also have "\<dots> \<le> getCapacity k"
    using v by (simp add: valid_length_contained getCapacity_def valid_def)
  finally have n: "sint (count_elaborate' k) = int (length (filter elaborate (contained k)))"
    if "getCapacity k < 2 ^ 31"
    using that unfolding c by (intro sint_of_nat_small) simp
  from v t c s n show ?thesis by blast
qed

theorem bookkeeping_invariant_witness:
  "reachable soup_left \<and> valid soup_left \<and> contained soup_left = [soup] \<and>
   total_prep_time' soup_left = 5 \<and> count_elaborate' soup_left = 0 \<and>
   reachable feast_and_soup \<and> contained feast_and_soup = [feast, soup] \<and>
   - (2 ^ 31) \<le> prep_time_sum feast_and_soup \<and> prep_time_sum feast_and_soup < 2 ^ 31 \<and>
   getCapacity feast_and_soup < 2 ^ 31 \<and>
   total_prep_time' feast_and_soup = 95 \<and> sint (total_prep_time' feast_and_soup) = 95 \<and>
   count_elaborate' feast_and_soup = 1 \<and> sint (count_elaborate' feast_and_soup) = 1"
proof -
  have s: "prep_time_sum feast_and_soup = 95"
    by (simp add: prep_time_sum_def contained_feast_and_soup soup_simps feast_simps)
  have c: "getCapacity feast_and_soup = 2"
    by (simp add: getCapacity_def feast_and_soup_def)
  from bookkeeping_invariant [OF reachable_soup_left]
    bookkeeping_invariant [OF reachable_feast_and_soup]
    reachable_soup_left reachable_feast_and_soup
  show ?thesis
    by (simp add: contained_soup_left contained_feast_and_soup soup_simps feast_simps s c
        not_elaborate)
qed

text \<open>
  \<^verbatim>\<open>serveDish\<close> of a dish that the kitchen contains returns true and removes one dish
  equal to it: the size drops by one, the preparation time is subtracted, and the count
  of elaborate dishes drops by one when the dish is elaborate.
\<close>

theorem serveDish_contained:
  assumes "valid k" "d \<in> set (contained k)"
  shows "\<exists>k'. serveDish d k = Inr (True, k') \<and> valid k' \<and>
           mset (contained k') = mset (contained k) - {#d#} \<and>
           getCurrentSize k' = getCurrentSize k - 1 \<and>
           total_prep_time' k' = total_prep_time' k - getPrepTime d \<and>
           count_elaborate' k' =
             (if elaborate d then count_elaborate' k - 1 else count_elaborate' k)"
proof -
  from serveDish_cases [OF assms(1), of d] serveDish_not_false [OF assms]
  obtain j x where j: "j < item_count' k" and x: "heap k (items' k ! j) = Some x"
    and e: "Dish_equal x d"
    and r: "serveDish d k =
              Inr (True,
                   k\<lparr>total_prep_time' := total_prep_time' k - getPrepTime x,
                     count_elaborate' :=
                       (if elaborate x then count_elaborate' k - 1 else count_elaborate' k),
                     heap := (heap k)(items' k ! j := None),
                     items' := (items' k)[j := items' k ! (item_count' k - 1)],
                     item_count' := item_count' k - 1\<rparr>)"
    by blast
  from e have xd: "x = d" by (simp add: Dish_equal_def)
  note st = served_state [OF assms(1) j x refl]
  show ?thesis
    unfolding r using st(1,2) by (simp add: xd getCurrentSize_def)
qed

theorem serveDish_contained_witness:
  "valid feast_and_soup \<and> contained feast_and_soup = [feast, soup] \<and>
   serveDish feast feast_and_soup = Inr (True, soup_left) \<and>
   contained soup_left = [soup] \<and> getCurrentSize soup_left = 1 \<and>
   total_prep_time' soup_left = 5 \<and> count_elaborate' soup_left = 0"
proof -
  have "feast \<in> set (contained feast_and_soup)"
    by (simp add: contained_feast_and_soup)
  from serveDish_contained [OF valid_feast_and_soup this]
  show ?thesis
    using valid_feast_and_soup contained_feast_and_soup serve_feast contained_soup_left
    by (simp add: soup_left_def getCurrentSize_def)
qed

text \<open>
  \<^verbatim>\<open>newOrder\<close> of a freshly allocated dish in a kitchen that is not full returns true
  and appends the dish: the size grows by one, the preparation time is added, and the
  count of elaborate dishes grows by one when the dish is elaborate.
\<close>

theorem newOrder_not_full:
  assumes "valid k" "heap k p = None" "getCurrentSize k < getCapacity k"
  shows "\<exists>k'. newOrder p (k\<lparr>heap := (heap k)(p \<mapsto> d)\<rparr>) = Inr (True, k') \<and> valid k' \<and>
           contained k' = contained k @ [d] \<and>
           getCurrentSize k' = getCurrentSize k + 1 \<and>
           total_prep_time' k' = total_prep_time' k + getPrepTime d \<and>
           count_elaborate' k' =
             (if elaborate d then count_elaborate' k + 1 else count_elaborate' k)"
proof -
  from assms(3) have lt: "item_count' k < length (items' k)"
    by (simp add: getCurrentSize_def getCapacity_def)
  from newOrder_cases [OF assms(1,2), of d] lt
  have r: "newOrder p (k\<lparr>heap := (heap k)(p \<mapsto> d)\<rparr>) =
            Inr (True,
                 k\<lparr>heap := (heap k)(p \<mapsto> d),
                   items' := (items' k)[item_count' k := p],
                   item_count' := Suc (item_count' k),
                   total_prep_time' := total_prep_time' k + getPrepTime d,
                   count_elaborate' :=
                     (if elaborate d then count_elaborate' k + 1 else count_elaborate' k)\<rparr>)"
    by simp
  note st = ordered_state [OF assms(1,2) lt refl]
  show ?thesis
    unfolding r using st by (simp add: getCurrentSize_def)
qed

theorem newOrder_not_full_witness:
  "valid only_feast \<and> heap only_feast 2 = None \<and>
   getCurrentSize only_feast < getCapacity only_feast \<and>
   newOrder 2 (only_feast\<lparr>heap := (heap only_feast)(2 \<mapsto> soup)\<rparr>) =
     Inr (True, feast_and_soup) \<and>
   contained only_feast = [feast] \<and> contained feast_and_soup = [feast, soup] \<and>
   total_prep_time' only_feast = 90 \<and> total_prep_time' feast_and_soup = 95"
proof -
  have v: "valid only_feast" by (simp add: valid_def only_feast_def)
  have h: "heap only_feast 2 = None" by (simp add: only_feast_def)
  have c: "getCurrentSize only_feast < getCapacity only_feast"
    by (simp add: getCurrentSize_def getCapacity_def only_feast_def)
  have o: "contained only_feast = [feast]" by (simp add: contained_def only_feast_def)
  from newOrder_not_full [OF v h c, of soup]
  show ?thesis
    using v h c o order_soup contained_feast_and_soup
    by (simp add: only_feast_def feast_and_soup_def)
qed

text \<open>
  Claim C5. In a valid kitchen, when no contained dish is equal to the given dish,
  \<^verbatim>\<open>serveDish\<close> returns false and the kitchen is unchanged: the same dishes, size and
  counters.
\<close>

theorem serveDish_absent:
  assumes "valid k" "\<forall>x\<in>set (contained k). \<not> Dish_equal x d"
  shows "serveDish d k = Inr (False, k)"
proof (cases "item_count' k = 0")
  case True
  then show ?thesis by (simp add: serveDish_def getCurrentSize_def)
next
  case False
  from assms(1) have sub: "set (take (item_count' k) (items' k)) \<subseteq> dom (heap k)"
    by (simp add: valid_def)
  have "serveDish_scan (heap k) d (take (item_count' k) (items' k)) 0 = Inr None"
    using sub assms(2) by (intro serveDish_scan_None) (auto simp: contained_def)
  with False show ?thesis by (simp add: serveDish_def getCurrentSize_def)
qed

theorem serveDish_absent_witness:
  "valid feast_and_soup \<and> contained feast_and_soup = [feast, soup] \<and>
   \<not> Dish_equal feast cake \<and> \<not> Dish_equal soup cake \<and>
   serveDish cake feast_and_soup = Inr (False, feast_and_soup)"
  using serveDish_absent [of feast_and_soup cake] valid_feast_and_soup
  by (simp add: contained_feast_and_soup Dish_equal_def dishes_differ)

text \<open>
  Claim C6. Once the current size equals the capacity, \<^verbatim>\<open>newOrder\<close> returns false and
  the kitchen is unchanged: the size remains the capacity and neither counter is modified.
\<close>

theorem newOrder_full:
  "getCurrentSize k = getCapacity k \<Longrightarrow> newOrder new_dish k = Inr (False, k)"
  by (simp add: newOrder_def ArrayBag_add_def)

theorem newOrder_full_witness:
  "getCurrentSize (feast_and_soup\<lparr>heap := (heap feast_and_soup)(3 \<mapsto> cake)\<rparr>) =
     getCapacity (feast_and_soup\<lparr>heap := (heap feast_and_soup)(3 \<mapsto> cake)\<rparr>) \<and>
   newOrder 3 (feast_and_soup\<lparr>heap := (heap feast_and_soup)(3 \<mapsto> cake)\<rparr>) =
     Inr (False, feast_and_soup\<lparr>heap := (heap feast_and_soup)(3 \<mapsto> cake)\<rparr>)"
proof -
  have full: "getCurrentSize (feast_and_soup\<lparr>heap := (heap feast_and_soup)(3 \<mapsto> cake)\<rparr>) =
     getCapacity (feast_and_soup\<lparr>heap := (heap feast_and_soup)(3 \<mapsto> cake)\<rparr>)"
    by (simp add: getCurrentSize_def getCapacity_def feast_and_soup_def)
  from newOrder_full [OF full, of 3] full show ?thesis by blast
qed

section \<open>The average preparation time\<close>

lemma avg_loop_sum:
  "set ps \<subseteq> dom h \<Longrightarrow>
   avg_loop h ps t = Inr (t + of_int (sum_list (map (\<lambda>p. sint (getPrepTime (the (h p)))) ps)))"
  by (induction ps arbitrary: t) (auto split: option.splits)

lemma c_round_nearest: "\<bar>of_int (c_round x) - x\<bar> \<le> 1 / 2"
  unfolding c_round_def by (cases "0 \<le> x") (simp_all only: if_True if_False, linarith+)

lemma c_round_of_int: "c_round (of_int n) = n"
proof -
  have "\<lfloor>rat_of_int n + 1 / 2\<rfloor> = n" "- \<lfloor>- rat_of_int n + 1 / 2\<rfloor> = n" by linarith+
  then show ?thesis by (simp add: c_round_def)
qed

lemma calculateAvgPrepTime_eq:
  assumes "valid k"
  shows "calculateAvgPrepTime k =
           Inr (if item_count' k = 0 then 0 else c_round (average_prep_time k))"
proof -
  from assms have sub: "set (take (item_count' k) (items' k)) \<subseteq> dom (heap k)"
    by (simp add: valid_def)
  show ?thesis
    by (simp add: calculateAvgPrepTime_def getCurrentSize_def avg_loop_sum [OF sub]
        average_prep_time_def prep_time_sum_def contained_def comp_def)
qed

text \<open>
  Claim C7. In a valid kitchen \<^verbatim>\<open>calculateAvgPrepTime\<close> returns 0 when the kitchen is
  empty; otherwise it returns the sum of the contained dishes' preparation times divided
  by the current size, rounded to the nearest integer (the result is within one half of
  the quotient). A kitchen whose dishes have the preparation times 10, 20 and 21 yields
  17.
\<close>

theorem average_prep_time_rounded:
  assumes "valid k"
  shows "(getCurrentSize k = 0 \<longrightarrow> calculateAvgPrepTime k = Inr 0) \<and>
         (getCurrentSize k \<noteq> 0 \<longrightarrow>
            calculateAvgPrepTime k = Inr (c_round (average_prep_time k)) \<and>
            \<bar>of_int (c_round (average_prep_time k)) - average_prep_time k\<bar> \<le> 1 / 2) \<and>
         (map (\<lambda>d. sint (getPrepTime d)) (contained k) = [10, 20, 21] \<longrightarrow>
            calculateAvgPrepTime k = Inr 17)"
proof (intro conjI impI)
  assume "getCurrentSize k = 0"
  then show "calculateAvgPrepTime k = Inr 0"
    by (simp add: calculateAvgPrepTime_eq [OF assms] getCurrentSize_def)
next
  assume "getCurrentSize k \<noteq> 0"
  then show "calculateAvgPrepTime k = Inr (c_round (average_prep_time k))"
    by (simp add: calculateAvgPrepTime_eq [OF assms] getCurrentSize_def)
next
  show "\<bar>of_int (c_round (average_prep_time k)) - average_prep_time k\<bar> \<le> 1 / 2"
    by (rule c_round_nearest)
next
  assume a: "map (\<lambda>d. sint (getPrepTime d)) (contained k) = [10, 20, 21]"
  then have "length (contained k) = 3"
    by (metis length_map length_Cons list.size(3) numeral_3_eq_3)
  then have n: "item_count' k = 3" using valid_length_contained [OF assms] by simp
  have "average_prep_time k = 17"
    by (simp add: average_prep_time_def prep_time_sum_def a n getCurrentSize_def)
  then show "calculateAvgPrepTime k = Inr 17"
    using c_round_of_int [of 17] by (simp add: calculateAvgPrepTime_eq [OF assms] n)
qed

theorem average_prep_time_rounded_witness:
  "valid (Kitchen_new [0, 0]) \<and> getCurrentSize (Kitchen_new [0, 0]) = 0 \<and>
   calculateAvgPrepTime (Kitchen_new [0, 0]) = Inr 0 \<and>
   valid salad_stew_cake \<and> getCurrentSize salad_stew_cake \<noteq> 0 \<and>
   map (\<lambda>d. sint (getPrepTime d)) (contained salad_stew_cake) = [10, 20, 21] \<and>
   calculateAvgPrepTime salad_stew_cake = Inr 17"
proof -
  have e: "getCurrentSize (Kitchen_new [0, 0]) = 0"
    by (simp add: getCurrentSize_def Kitchen_new_def)
  have n: "getCurrentSize salad_stew_cake \<noteq> 0"
    by (simp add: getCurrentSize_def salad_stew_cake_def)
  have m: "map (\<lambda>d. sint (getPrepTime d)) (contained salad_stew_cake) = [10, 20, 21]"
    by (simp add: contained_salad_stew_cake prep_times)
  from average_prep_time_rounded [OF valid_Kitchen_new, of "[0, 0]"] e
  have "calculateAvgPrepTime (Kitchen_new [0, 0]) = Inr 0" by blast
  moreover from average_prep_time_rounded [OF valid_salad_stew_cake] m
  have "calculateAvgPrepTime salad_stew_cake = Inr 17" by blast
  ultimately show ?thesis
    using e n m valid_salad_stew_cake valid_Kitchen_new [of "[0, 0]"] by blast
qed

section \<open>Dietary adjustment of the whole kitchen\<close>

lemma Appetizer_frame:
  "prep_time' (Appetizer_dietaryAccommodations r a) = prep_time' a \<and>
   cuisine_type' (Appetizer_dietaryAccommodations r a) = cuisine_type' a \<and>
   name' (Appetizer_dietaryAccommodations r a) = name' a \<and>
   price' (Appetizer_dietaryAccommodations r a) = price' a \<and>
   serving_style' (Appetizer_dietaryAccommodations r a) = serving_style' a"
  by (simp add: Appetizer_dietaryAccommodations_def Let_def)

lemma MainCourse_frame:
  "prep_time' (MainCourse_dietaryAccommodations r a) = prep_time' a \<and>
   cuisine_type' (MainCourse_dietaryAccommodations r a) = cuisine_type' a \<and>
   name' (MainCourse_dietaryAccommodations r a) = name' a \<and>
   price' (MainCourse_dietaryAccommodations r a) = price' a \<and>
   cooking_method' (MainCourse_dietaryAccommodations r a) = cooking_method' a"
  by (simp add: MainCourse_dietaryAccommodations_def Let_def)

lemma Dessert_frame:
  "prep_time' (Dessert_dietaryAccommodations r a) = prep_time' a \<and>
   cuisine_type' (Dessert_dietaryAccommodations r a) = cuisine_type' a \<and>
   name' (Dessert_dietaryAccommodations r a) = name' a \<and>
   price' (Dessert_dietaryAccommodations r a) = price' a \<and>
   flavor_profile' (Dessert_dietaryAccommodations r a) = flavor_profile' a"
  by (simp add: Dessert_dietaryAccommodations_def Let_def split: prod.splits)

lemma dietaryAccommodations_frame:
  "getPrepTime (dietaryAccommodations r x) = getPrepTime x"
  "cuisine_type_of (dietaryAccommodations r x) = cuisine_type_of x"
  "getName (dietaryAccommodations r x) = getName x"
  "getPrice (dietaryAccommodations r x) = getPrice x"
  "serving_style_of (dietaryAccommodations r x) = serving_style_of x"
  "cooking_method_of (dietaryAccommodations r x) = cooking_method_of x"
  "flavor_profile_of (dietaryAccommodations r x) = flavor_profile_of x"
  by (cases x; simp add: Appetizer_frame MainCourse_frame Dessert_frame)+

lemma dietaryAdjustment_loop_result:
  "distinct ps \<Longrightarrow> set ps \<subseteq> dom h \<Longrightarrow>
   dietaryAdjustment_loop r ps h =
     Inr (\<lambda>p. if p \<in> set ps then map_option (dietaryAccommodations r) (h p) else h p)"
proof (induction ps arbitrary: h)
  case Nil
  then show ?case by simp
next
  case (Cons p ps)
  from Cons.prems obtain x where x: "h p = Some x" by auto
  let ?h1 = "h(p \<mapsto> dietaryAccommodations r x)"
  have "dietaryAdjustment_loop r ps ?h1 =
     Inr (\<lambda>q. if q \<in> set ps then map_option (dietaryAccommodations r) (?h1 q) else ?h1 q)"
    using Cons.prems by (intro Cons.IH) auto
  moreover have "(\<lambda>q. if q \<in> set ps then map_option (dietaryAccommodations r) (?h1 q) else ?h1 q) =
     (\<lambda>q. if q \<in> set (p # ps) then map_option (dietaryAccommodations r) (h q) else h q)"
    using Cons.prems x by (auto simp: fun_eq_iff)
  ultimately show ?case using x by simp
qed

lemma feast_adjusted: "dietaryAccommodations vegetarian_only feast = vegetarian_feast"
  by (simp add: feast_def vegetarian_feast_def vegetarian_only_def
      MainCourse_dietaryAccommodations_def non_vegetarian_def)

lemma soup_adjusted: "dietaryAccommodations vegetarian_only soup = soup"
  by (simp add: soup_def vegetarian_only_def Appetizer_dietaryAccommodations_def
      non_vegetarian_def)

lemma adjusted_run:
  "dietaryAdjustment vegetarian_only feast_and_soup =
     Inr (feast_and_soup\<lparr>heap := (\<lambda>p. None)(1 \<mapsto> vegetarian_feast, 2 \<mapsto> soup)\<rparr>)"
  by (simp add: dietaryAdjustment_def feast_and_soup_def feast_adjusted soup_adjusted
      fun_upd_twist)

text \<open>
  Claim C9. In a valid kitchen \<^verbatim>\<open>dietaryAdjustment\<close> returns, and it leaves the current
  size, the array, \<^verbatim>\<open>total_prep_time_\<close> and \<^verbatim>\<open>count_elaborate_\<close> unchanged; every
  contained dish is replaced by its accommodated version, which is of the same subclass
  and has the same name, preparation time, price and cuisine type, and the same serving
  style, cooking method or flavor profile: only the ingredient list and the fields
  vegetarian, spiciness level, protein type, side dishes, gluten-free, sweetness level
  and contains-nuts can differ. \<^verbatim>\<open>count_elaborate_\<close> is not recomputed, also when a
  dish loses an ingredient and is no longer elaborate.
\<close>

theorem dietaryAdjustment_frame:
  assumes "valid k"
  shows "\<exists>k'. dietaryAdjustment request k = Inr k' \<and>
           valid k' \<and>
           getCurrentSize k' = getCurrentSize k \<and>
           items' k' = items' k \<and>
           total_prep_time' k' = total_prep_time' k \<and>
           count_elaborate' k' = count_elaborate' k \<and>
           contained k' = map (dietaryAccommodations request) (contained k) \<and>
           map getName (contained k') = map getName (contained k) \<and>
           map getPrepTime (contained k') = map getPrepTime (contained k) \<and>
           map getPrice (contained k') = map getPrice (contained k) \<and>
           map cuisine_type_of (contained k') = map cuisine_type_of (contained k) \<and>
           map serving_style_of (contained k') = map serving_style_of (contained k) \<and>
           map cooking_method_of (contained k') = map cooking_method_of (contained k) \<and>
           map flavor_profile_of (contained k') = map flavor_profile_of (contained k)"
proof -
  let ?ps = "take (item_count' k) (items' k)"
  let ?h = "\<lambda>p. if p \<in> set ?ps then map_option (dietaryAccommodations request) (heap k p)
                 else heap k p"
  from assms have sub: "set ?ps \<subseteq> dom (heap k)" and dist: "distinct ?ps"
    by (simp_all add: valid_def)
  have run: "dietaryAdjustment request k = Inr (k\<lparr>heap := ?h\<rparr>)"
    by (simp add: dietaryAdjustment_def dietaryAdjustment_loop_result [OF dist sub])
  have v: "valid (k\<lparr>heap := ?h\<rparr>)"
    using assms by (auto simp: valid_def)
  have c: "contained (k\<lparr>heap := ?h\<rparr>) = map (dietaryAccommodations request) (contained k)"
    using sub by (auto simp: contained_def option.map_sel)
  show ?thesis
    unfolding run using v c
    by (simp add: getCurrentSize_def comp_def dietaryAccommodations_frame)
qed

theorem dietaryAdjustment_frame_witness:
  "valid feast_and_soup \<and>
   contained feast_and_soup = [feast, soup] \<and> elaborate feast \<and>
   count_elaborate' feast_and_soup = 1 \<and>
   dietaryAdjustment vegetarian_only feast_and_soup =
     Inr (feast_and_soup\<lparr>heap := (\<lambda>p. None)(1 \<mapsto> vegetarian_feast, 2 \<mapsto> soup)\<rparr>) \<and>
   contained (feast_and_soup\<lparr>heap := (\<lambda>p. None)(1 \<mapsto> vegetarian_feast, 2 \<mapsto> soup)\<rparr>) =
     [vegetarian_feast, soup] \<and>
   \<not> elaborate vegetarian_feast \<and> \<not> elaborate soup \<and>
   count_elaborate'
     (feast_and_soup\<lparr>heap := (\<lambda>p. None)(1 \<mapsto> vegetarian_feast, 2 \<mapsto> soup)\<rparr>) = 1 \<and>
   cooking_method_of feast = Some GRILLED \<and>
   cooking_method_of vegetarian_feast = Some GRILLED \<and>
   serving_style_of soup = Some PLATED"
proof -
  have fields: "cooking_method_of feast = Some GRILLED"
    "cooking_method_of vegetarian_feast = Some GRILLED" "serving_style_of soup = Some PLATED"
    by (simp_all add: feast_def vegetarian_feast_def soup_def)
  have kept: "count_elaborate'
     (feast_and_soup\<lparr>heap := (\<lambda>p. None)(1 \<mapsto> vegetarian_feast, 2 \<mapsto> soup)\<rparr>) = 1"
    "count_elaborate' feast_and_soup = 1"
    by (simp_all add: feast_and_soup_def)
  have after: "contained
     (feast_and_soup\<lparr>heap := (\<lambda>p. None)(1 \<mapsto> vegetarian_feast, 2 \<mapsto> soup)\<rparr>) =
     [vegetarian_feast, soup]"
    by (simp add: contained_def feast_and_soup_def)
  from dietaryAdjustment_frame [OF valid_feast_and_soup, of vegetarian_only]
  show ?thesis
    using adjusted_run valid_feast_and_soup contained_feast_and_soup not_elaborate
      vegetarian_feast_not_elaborate fields kept after
    by simp
qed

section \<open>Releasing the dishes below a preparation time\<close>

text \<open>
  Claim C2 at a kitchen that holds three equal dishes with preparation time 5 (the
  kitchen after three orders of the same soup, a valid and reachable one), released
  below 10. At index 0 the first soup is served and the third is moved to slot 0. At
  index 1 \<^verbatim>\<open>serveDish\<close> finds, by value, the dish of slot 0 first: the third soup is
  deleted and the second is moved to slot 0. At index 2 the loop reads slot 2, which
  still holds the pointer to the third soup, and dereferences it after its deletion.
\<close>

theorem release_three_identical_dishes:
  "releaseDishesBelowPrepTime 10 three_soups = Inl UseAfterFree"
  by (simp add: releaseDishesBelowPrepTime_def getCurrentSize_def three_soups_def upt_rec
      serveDish_def Dish_equal_def soup_simps ArrayBag_remove_def)

text \<open>
  The same loop on a valid kitchen whose dishes are pairwise different. Every slot below
  the bound still holds a pointer to a live dish when the loop reaches it: a removal
  overwrites a slot at or before the current index, and a dish moved there from the end
  is met again in its old slot.
\<close>

lemma pending_head:
  assumes "pending_ok t n i k" "i < n"
  shows "drop i (take n (items' k)) = items' k ! i # drop (Suc i) (take n (items' k))"
    and "items' k ! i \<in> set (take (item_count' k) (items' k))"
    and "items' k ! i \<notin> set (drop (Suc i) (take n (items' k)))"
    and "\<exists>x. heap k (items' k ! i) = Some x"
proof -
  from assms have len: "i < length (take n (items' k))"
    by (simp add: pending_ok_def)
  show hd: "drop i (take n (items' k)) = items' k ! i # drop (Suc i) (take n (items' k))"
    using Cons_nth_drop_Suc [OF len] assms(2) by simp
  from assms(1) have sub: "set (drop i (take n (items' k))) \<subseteq> set (take (item_count' k) (items' k))"
    and dist: "distinct (drop i (take n (items' k)))"
    and v: "valid k"
    by (simp_all add: pending_ok_def)
  show live: "items' k ! i \<in> set (take (item_count' k) (items' k))"
    using sub unfolding hd by simp
  show "items' k ! i \<notin> set (drop (Suc i) (take n (items' k)))"
    using dist unfolding hd by simp
  show "\<exists>x. heap k (items' k ! i) = Some x"
    using v live by (auto simp: valid_def)
qed

lemma release_step_keep:
  assumes p: "pending_ok t n i k" and i: "i < n"
    and x: "heap k (items' k ! i) = Some x" and nb: "\<not> below_prep_time t x"
  shows "pending_ok t n (Suc i) k"
proof -
  note h = pending_head [OF p i]
  from p have dist: "distinct (drop i (take n (items' k)))"
    and sub: "set (drop i (take n (items' k))) \<subseteq> set (take (item_count' k) (items' k))"
    and rest: "\<forall>p\<in>set (take (item_count' k) (items' k)) - set (drop i (take n (items' k))).
         \<not> below_prep_time t (the (heap k p))"
    by (simp_all add: pending_ok_def)
  have "distinct (drop (Suc i) (take n (items' k)))"
    using dist unfolding h(1) by simp
  moreover have "set (drop (Suc i) (take n (items' k))) \<subseteq> set (take (item_count' k) (items' k))"
    using sub unfolding h(1) by simp
  moreover have "\<forall>p\<in>set (take (item_count' k) (items' k)) - set (drop (Suc i) (take n (items' k))).
         \<not> below_prep_time t (the (heap k p))"
  proof
    fix q assume q: "q \<in> set (take (item_count' k) (items' k)) - set (drop (Suc i) (take n (items' k)))"
    show "\<not> below_prep_time t (the (heap k q))"
    proof (cases "q = items' k ! i")
      case True
      with x nb show ?thesis by simp
    next
      case False
      with q have "q \<in> set (take (item_count' k) (items' k)) - set (drop i (take n (items' k)))"
        unfolding h(1) by simp
      with rest show ?thesis by blast
    qed
  qed
  ultimately show ?thesis
    using p i by (simp add: pending_ok_def)
qed

lemma release_step_serve:
  assumes p: "pending_ok t n i k" and i: "i < n"
    and x: "heap k (items' k ! i) = Some x" and b: "below_prep_time t x"
  shows "\<exists>k1. serveDish x k = Inr (True, k1) \<and> pending_ok t n (Suc i) k1 \<and>
           mset (contained k1) = mset (contained k) - {#x#} \<and>
           drop (Suc i) (take n (items' k1)) = drop (Suc i) (take n (items' k)) \<and>
           (\<forall>q\<in>set (drop (Suc i) (take n (items' k))). heap k1 q = heap k q) \<and>
           (balanced k \<longrightarrow> balanced k1)"
proof -
  let ?live = "take (item_count' k) (items' k)"
  let ?p = "items' k ! i"
  note h = pending_head [OF p i]
  from p have v: "valid k" and n: "n \<le> length (items' k)" and cn: "item_count' k \<le> n"
    and dist: "distinct (drop i (take n (items' k)))"
    and sub: "set (drop i (take n (items' k))) \<subseteq> set ?live"
    and inj: "inj_on (\<lambda>p. the (heap k p)) (set ?live)"
    and rest: "\<forall>p\<in>set ?live - set (drop i (take n (items' k))).
         \<not> below_prep_time t (the (heap k p))"
    by (simp_all add: pending_ok_def)
  from v have le: "item_count' k \<le> length (items' k)" and dlive: "distinct ?live"
    by (simp_all add: valid_def)
  from h(2) obtain m where m: "m < item_count' k" and pm: "items' k ! m = ?p"
    using le by (auto simp: in_set_conv_nth)
  from x pm have xm: "heap k (items' k ! m) = Some x" by simp
  from serveDish_present [OF v m xm inj] pm
  obtain j where j: "j < item_count' k" and pj: "items' k ! j = ?p"
    and run: "serveDish x k =
              Inr (True,
                   k\<lparr>total_prep_time' := total_prep_time' k - getPrepTime x,
                     count_elaborate' :=
                       (if elaborate x then count_elaborate' k - 1 else count_elaborate' k),
                     heap := (heap k)(?p := None),
                     items' := (items' k)[j := items' k ! (item_count' k - 1)],
                     item_count' := item_count' k - 1\<rparr>)"
    by auto
  define k1 where "k1 = k\<lparr>total_prep_time' := total_prep_time' k - getPrepTime x,
                     count_elaborate' :=
                       (if elaborate x then count_elaborate' k - 1 else count_elaborate' k),
                     heap := (heap k)(items' k ! j := None),
                     items' := (items' k)[j := items' k ! (item_count' k - 1)],
                     item_count' := item_count' k - 1\<rparr>"
  have run1: "serveDish x k = Inr (True, k1)"
    using run by (simp add: k1_def pj)
  have xj: "heap k (items' k ! j) = Some x" using x pj by simp
  note st = served_state [OF v j xj k1_def]
  have ji: "j \<le> i"
  proof (rule ccontr)
    assume "\<not> j \<le> i"
    then have "i < j" by simp
    moreover have "j < n" using j cn by simp
    ultimately have "items' k ! j \<in> set (drop (Suc i) (take n (items' k)))"
      using n by (auto simp: in_set_conv_nth intro!: exI [of _ "j - Suc i"])
    with h(3) pj show False by simp
  qed
  have items1: "items' k1 = (items' k)[j := items' k ! (item_count' k - 1)]"
    and count1: "item_count' k1 = item_count' k - 1"
    and heap1: "heap k1 = (heap k)(?p := None)"
    by (simp_all add: k1_def pj)
  have pend1: "drop (Suc i) (take n (items' k1)) = drop (Suc i) (take n (items' k))"
    using ji by (simp add: items1 take_update_swap)
  have live1: "set (take (item_count' k1) (items' k1)) = set ?live - {?p}"
    using swap_remove_distinct(2) [OF dlive j le] by (simp add: items1 count1 pj)
  have same: "\<forall>q\<in>set (drop (Suc i) (take n (items' k))). heap k1 q = heap k q"
    using h(3) by (auto simp: heap1)
  have "pending_ok t n (Suc i) k1"
    unfolding pending_ok_def
  proof (intro conjI)
    show "valid k1" by (rule st(1))
    show "Suc i \<le> n" using i by simp
    show "n \<le> length (items' k1)" using n by (simp add: items1)
    show "item_count' k1 \<le> n" using cn by (simp add: count1)
    show "distinct (drop (Suc i) (take n (items' k1)))"
      using dist unfolding pend1 h(1) by simp
    show "set (drop (Suc i) (take n (items' k1))) \<subseteq> set (take (item_count' k1) (items' k1))"
      using sub h(3) unfolding pend1 live1 h(1) by auto
    show "inj_on (\<lambda>p. the (heap k1 p)) (set (take (item_count' k1) (items' k1)))"
      unfolding live1 heap1 using inj by (auto simp: inj_on_def)
    show "\<forall>p\<in>set (take (item_count' k1) (items' k1)) - set (drop (Suc i) (take n (items' k1))).
         \<not> below_prep_time t (the (heap k1 p))"
      unfolding pend1 live1 heap1 using rest unfolding h(1) by auto
  qed
  moreover have "balanced k \<longrightarrow> balanced k1"
    using serveDish_preserves [OF v _ run1] by blast
  ultimately show ?thesis
    using run1 st(2) pend1 same by blast
qed

lemma release_loop_correct:
  "pending_ok t n i k \<Longrightarrow>
   \<exists>k'. releaseDishesBelowPrepTime_loop t [i..<n] (c, k) =
          Inr (c + of_nat (length (filter (\<lambda>p. below_prep_time t (the (heap k p)))
                                     (drop i (take n (items' k))))), k') \<and>
        valid k' \<and>
        mset (contained k') = mset (filter (\<lambda>d. \<not> below_prep_time t d) (contained k)) \<and>
        (balanced k \<longrightarrow> balanced k')"
proof (induction "n - i" arbitrary: i k c)
  case 0
  then have i: "i = n" and v: "valid k"
    and rest: "\<forall>p\<in>set (take (item_count' k) (items' k)) - set (drop i (take n (items' k))).
         \<not> below_prep_time t (the (heap k p))"
    by (simp_all add: pending_ok_def)
  have "filter (\<lambda>d. \<not> below_prep_time t d) (contained k) = contained k"
    using rest by (simp add: contained_def i filter_map comp_def)
  then show ?case using v by (simp add: i)
next
  case (Suc d)
  then have i: "i < n" by simp
  note p = Suc.prems
  note h = pending_head [OF p i]
  from h(4) obtain x where x: "heap k (items' k ! i) = Some x" by blast
  have upt: "[i..<n] = i # [Suc i..<n]" using i by (simp add: upt_conv_Cons)
  show ?case
  proof (cases "below_prep_time t x")
    case False
    have d: "d = n - Suc i" using Suc.hyps(2) by simp
    from Suc.hyps(1) [OF d release_step_keep [OF p i x False], of c]
    obtain k' where
      run: "releaseDishesBelowPrepTime_loop t [Suc i..<n] (c, k) =
          Inr (c + of_nat (length (filter (\<lambda>p. below_prep_time t (the (heap k p)))
                                     (drop (Suc i) (take n (items' k))))), k')"
      and post: "valid k'"
        "mset (contained k') = mset (filter (\<lambda>d. \<not> below_prep_time t d) (contained k))"
        "balanced k \<longrightarrow> balanced k'"
      by blast
    have "releaseDishesBelowPrepTime_loop t [i..<n] (c, k) =
            releaseDishesBelowPrepTime_loop t [Suc i..<n] (c, k)"
      using x False by (simp add: upt below_prep_time_def)
    then show ?thesis
      using run post x False unfolding h(1) by simp
  next
    case True
    from release_step_serve [OF p i x True]
    obtain k1 where run1: "serveDish x k = Inr (True, k1)"
      and p1: "pending_ok t n (Suc i) k1"
      and m1: "mset (contained k1) = mset (contained k) - {#x#}"
      and pend1: "drop (Suc i) (take n (items' k1)) = drop (Suc i) (take n (items' k))"
      and same: "\<forall>q\<in>set (drop (Suc i) (take n (items' k))). heap k1 q = heap k q"
      and bal1: "balanced k \<longrightarrow> balanced k1"
      by blast
    have d: "d = n - Suc i" using Suc.hyps(2) by simp
    from Suc.hyps(1) [OF d p1, of "c + 1"]
    obtain k' where
      run: "releaseDishesBelowPrepTime_loop t [Suc i..<n] (c + 1, k1) =
          Inr (c + 1 + of_nat (length (filter (\<lambda>p. below_prep_time t (the (heap k1 p)))
                                     (drop (Suc i) (take n (items' k1))))), k')"
      and post: "valid k'"
        "mset (contained k') = mset (filter (\<lambda>d. \<not> below_prep_time t d) (contained k1))"
        "balanced k1 \<longrightarrow> balanced k'"
      by blast
    have cnt: "filter (\<lambda>p. below_prep_time t (the (heap k1 p)))
                 (drop (Suc i) (take n (items' k1))) =
               filter (\<lambda>p. below_prep_time t (the (heap k p)))
                 (drop (Suc i) (take n (items' k)))"
      unfolding pend1 using same by (intro filter_cong) auto
    have step: "releaseDishesBelowPrepTime_loop t [i..<n] (c, k) =
            releaseDishesBelowPrepTime_loop t [Suc i..<n] (c + 1, k1)"
      using x True run1 by (simp add: upt below_prep_time_def)
    have ms: "mset (filter (\<lambda>d. \<not> below_prep_time t d) (contained k1)) =
              mset (filter (\<lambda>d. \<not> below_prep_time t d) (contained k))"
      using True by (simp add: m1)
    show ?thesis
      unfolding step run cnt h(1)
      using post bal1 x True ms by simp
  qed
qed

lemma release_salad_stew_cake:
  "releaseDishesBelowPrepTime 21 salad_stew_cake = Inr (2, cake_left)"
  by (simp add: releaseDishesBelowPrepTime_def getCurrentSize_def salad_stew_cake_def
      cake_left_def upt_rec serveDish_def Dish_equal_def prep_times ArrayBag_remove_def
      fun_upd_twist)
     (simp add: salad_def stew_def cake_def)

text \<open>
  On a valid kitchen whose dishes are pairwise different the call returns, it serves
  exactly the dishes below the preparation time and returns their number, and the two
  counters stay in agreement with the contained dishes.
\<close>

theorem release_distinct_dishes:
  assumes "valid k" "distinct (contained k)"
  shows "\<exists>k'. releaseDishesBelowPrepTime t k =
           Inr (of_nat (length (filter (below_prep_time t) (contained k))), k') \<and>
         valid k' \<and>
         mset (contained k') = mset (filter (\<lambda>d. \<not> below_prep_time t d) (contained k)) \<and>
         (balanced k \<longrightarrow> balanced k')"
proof -
  let ?n = "item_count' k"
  from assms(1) have le: "?n \<le> length (items' k)" and dist: "distinct (take ?n (items' k))"
    by (simp_all add: valid_def)
  have inj: "inj_on (\<lambda>p. the (heap k p)) (set (take ?n (items' k)))"
    using assms(2) by (simp add: contained_def distinct_map)
  have "pending_ok t ?n 0 k"
    using assms(1) le dist inj by (simp add: pending_ok_def)
  from release_loop_correct [OF this, of 0]
  show ?thesis
    by (simp add: releaseDishesBelowPrepTime_def getCurrentSize_def contained_def filter_map
        comp_def)
qed

theorem release_distinct_dishes_witness:
  "valid salad_stew_cake \<and> contained salad_stew_cake = [salad, stew, cake] \<and>
   distinct (contained salad_stew_cake) \<and>
   below_prep_time 21 salad \<and> below_prep_time 21 stew \<and> \<not> below_prep_time 21 cake \<and>
   releaseDishesBelowPrepTime 21 salad_stew_cake = Inr (2, cake_left) \<and>
   contained cake_left = [cake]"
proof -
  have d: "distinct (contained salad_stew_cake)"
    by (simp add: contained_salad_stew_cake) (simp add: salad_def stew_def cake_def)
  have b: "below_prep_time 21 salad" "below_prep_time 21 stew" "\<not> below_prep_time 21 cake"
    by (simp_all add: below_prep_time_def prep_times)
  have c: "contained cake_left = [cake]"
    by (simp add: contained_def cake_left_def)
  from release_distinct_dishes [OF valid_salad_stew_cake d, of 21]
  show ?thesis
    using valid_salad_stew_cake contained_salad_stew_cake d b c release_salad_stew_cake
    by simp
qed

end
